theory Spec2Isabelle
  imports Main "HOL-Library.Word" "HOL-Library.Sublist"
begin

section \<open>Text utilities of convert.cpp\<close>

text \<open>
  A \<open>std::string_view\<close> is modelled by the characters it spans. Every indexed read
  \<open>str[i]\<close> of the source goes through \<open>char_at\<close>, which is \<open>None\<close> outside the
  span; a function of the model returns \<open>None\<close> exactly when the source would read
  or step outside its string, where C++ leaves the behaviour undefined.
\<close>

definition char_at :: "string \<Rightarrow> nat \<Rightarrow> char option" where
  "char_at str i = (if i < length str then Some (str ! i) else None)"

text \<open>The test \<open>c == ' ' || c == '\t'\<close> used by both loops of \<open>trim\<close>.\<close>

definition is_blank :: "char \<Rightarrow> bool" where
  "is_blank c = (c = CHR '' '' \<or> c = CHR 0x09)"

text \<open>\<open>std::string_view(&str[start], n)\<close>: the span must lie inside \<open>str\<close>.\<close>

definition sub_view :: "string \<Rightarrow> nat \<Rightarrow> nat \<Rightarrow> string option" where
  "sub_view str start n =
     (if start + n \<le> length str then Some (take n (drop start str)) else None)"

text \<open>
  First loop of \<open>trim\<close>:
  \<^verbatim>\<open>while (start < str.size() - 1 && (str[start] == ' ' || str[start] == '\t')) { ++start; }\<close>
  It is only reached for a non-empty \<open>str\<close>, so \<open>str.size() - 1\<close> does not wrap.
\<close>

function trim_start :: "string \<Rightarrow> nat \<Rightarrow> nat option" where
  "trim_start str start =
     (if start < length str - 1 then
        (case char_at str start of
           None \<Rightarrow> None
         | Some c \<Rightarrow> if is_blank c then trim_start str (start + 1) else Some start)
      else Some start)"
  by pat_completeness auto
termination
  by (relation "measure (\<lambda>(str, start). length str - 1 - start)") auto

declare trim_start.simps [simp del]

text \<open>
  Second loop of \<open>trim\<close>:
  \<^verbatim>\<open>while (end > 0 && (str[end] == ' ' || str[end] == '\t')) { --end; }\<close>
\<close>

function trim_end :: "string \<Rightarrow> nat \<Rightarrow> nat option" where
  "trim_end str e =
     (if e > 0 then
        (case char_at str e of
           None \<Rightarrow> None
         | Some c \<Rightarrow> if is_blank c then trim_end str (e - 1) else Some e)
      else Some e)"
  by pat_completeness auto
termination
  by (relation "measure (\<lambda>(str, e). e)") auto

declare trim_end.simps [simp del]

definition trim :: "string \<Rightarrow> string option" where
  "trim str =
     (if str = [] then Some []
      else
        (case trim_start str 0 of
           None \<Rightarrow> None
         | Some start \<Rightarrow>
             (case trim_end str (length str - 1) of
                None \<Rightarrow> None
              | Some e \<Rightarrow>
                  if start = e then
                    (case char_at str e of
                       None \<Rightarrow> None
                     | Some c \<Rightarrow>
                         if is_blank c then Some [] else sub_view str start (e - start + 1))
                  else if start > e then Some []
                  else sub_view str start (e - start + 1))))"

text \<open>
  \<^verbatim>\<open>return (!str.empty() && str[0] == ';') ? trim(str.substr(1)) : str;\<close>
\<close>

definition uncomment :: "string \<Rightarrow> string option" where
  "uncomment str =
     (if str \<noteq> [] then
        (case char_at str 0 of
           None \<Rightarrow> None
         | Some c \<Rightarrow> if c = CHR '';'' then trim (drop 1 str) else Some str)
      else Some str)"

text \<open>
  The claim's wording of \<open>trim\<close>: the input with its leading and its trailing spaces
  and tabs removed.
\<close>

definition trim_spec :: "string \<Rightarrow> string" where
  "trim_spec s = rev (dropWhile is_blank (rev (dropWhile is_blank s)))"


section \<open>Normalisation of a GCode payload\<close>

text \<open>
  The lambda \<open>remove_empty_lines\<close> walks \<open>data\<close> with two iterators, modelled by
  their distances from \<open>data.begin()\<close>. The inner loop is
  \<^verbatim>\<open>while (end_it != data.end() && *end_it != '\n') { ++end_it; }\<close>
\<close>

function find_eol :: "string \<Rightarrow> nat \<Rightarrow> nat option" where
  "find_eol data end_it =
     (if end_it \<noteq> length data then
        (case char_at data end_it of
           None \<Rightarrow> None
         | Some c \<Rightarrow> if c \<noteq> CHR 0x0A then find_eol data (end_it + 1) else Some end_it)
      else Some end_it)"
  by pat_completeness auto
termination
  by (relation "measure (\<lambda>(data, end_it). length data - end_it)")
     (auto simp: char_at_def split: if_splits)

declare find_eol.simps [simp del]

text \<open>
  The outer loop. \<open>begin_it = ++end_it\<close> closes every iteration: when the inner loop
  stopped at \<open>data.end()\<close> (the last line has no newline after it) the increment
  steps past the end of the string, which is undefined in C++ and \<open>None\<close> here.
\<close>

function remove_empty_lines_loop :: "string \<Rightarrow> nat \<Rightarrow> nat \<Rightarrow> string \<Rightarrow> string option" where
  "remove_empty_lines_loop data begin_it end_it ret =
     (if end_it \<noteq> length data then
        (case find_eol data end_it of
           None \<Rightarrow> None
         | Some e \<Rightarrow>
             (case sub_view data begin_it (e - begin_it) of
                None \<Rightarrow> None
              | Some original_line \<Rightarrow>
                  (case Option.bind (trim original_line) uncomment of
                     None \<Rightarrow> None
                   | Some reduced_line \<Rightarrow>
                       if e = length data then None
                       else remove_empty_lines_loop data (e + 1) (e + 1)
                              (if reduced_line \<noteq> [] then ret @ original_line @ [CHR 0x0A]
                               else ret))))
      else Some ret)"
  by pat_completeness auto
termination
proof -
  have bounds: "find_eol data i = Some e \<Longrightarrow> i \<le> e \<and> e \<le> length data" for data i e
  proof (induction data i rule: find_eol.induct)
    case (1 data end_it)
    show ?case
    proof (cases "end_it \<noteq> length data")
      case False
      with "1.prems" show ?thesis by (simp add: find_eol.simps)
    next
      case True
      with "1.prems" obtain c where c: "char_at data end_it = Some c"
        by (subst (asm) find_eol.simps) (auto split: option.splits)
      then have lt: "end_it < length data" by (simp add: char_at_def split: if_splits)
      show ?thesis
      proof (cases "c \<noteq> CHR 0x0A")
        case True
        with \<open>end_it \<noteq> length data\<close> c "1.prems"
        have "find_eol data (end_it + 1) = Some e"
          by (subst (asm) find_eol.simps) simp
        with "1.IH" [OF \<open>end_it \<noteq> length data\<close> c True] show ?thesis by simp
      next
        case False
        with \<open>end_it \<noteq> length data\<close> c "1.prems" have "e = end_it"
          by (subst (asm) find_eol.simps) simp
        with lt show ?thesis by simp
      qed
    qed
  qed
  show ?thesis
  proof (relation "measure (\<lambda>(data, begin_it, end_it, ret). length data - end_it)", goal_cases)
    case 1
    show ?case by simp
  next
    case (2 data begin_it end_it ret e original_line reduced_line)
    from bounds [OF 2(2)] 2(5) show ?case by auto
  qed
qed

declare remove_empty_lines_loop.simps [simp del]

definition remove_empty_lines :: "string \<Rightarrow> string option" where
  "remove_empty_lines data = remove_empty_lines_loop data 0 0 []"

text \<open>
  The claim's wording of the classification: a line is retained iff \<open>trim\<close> and then
  \<open>uncomment\<close> leave something of it.
\<close>

definition retained :: "string \<Rightarrow> bool" where
  "retained line =
     (case Option.bind (trim line) uncomment of None \<Rightarrow> False | Some r \<Rightarrow> r \<noteq> [])"

text \<open>The payload made of the lines \<open>ls\<close>, each followed by a newline.\<close>

definition text_of_lines :: "string list \<Rightarrow> string" where
  "text_of_lines ls = concat (map (\<lambda>l. l @ [CHR 0x0A]) ls)"

section \<open>Decimal rendering\<close>

text \<open>\<open>std::to_string\<close> on an unsigned value: its decimal digits, without leading zeros.\<close>

definition digit_char :: "nat \<Rightarrow> char" where
  "digit_char d = char_of (48 + d)"

function to_string :: "nat \<Rightarrow> string" where
  "to_string n = (if n < 10 then [digit_char n] else to_string (n div 10) @ [digit_char (n mod 10)])"
  by pat_completeness auto
termination
  by (relation "measure id") auto

declare to_string.simps [simp del]

section \<open>Base-64\<close>

text \<open>
  Modelled from the spec: the base-64 codec. The source calls
  \<open>boost::beast::detail::base64::encode\<close>, a library outside the repository, and the
  spec names the result "the base-64 encoding" of the bytes: the standard alphabet,
  three bytes to four characters, the last group padded with \<open>=\<close>.
\<close>

type_synonym byte = "8 word"

definition base64_alphabet :: string where
  "base64_alphabet = ''ABCDEFGHIJKLMNOPQRSTUVWXYZabcdefghijklmnopqrstuvwxyz0123456789+/''"

definition base64_char :: "nat \<Rightarrow> char" where
  "base64_char n = base64_alphabet ! n"

fun base64_encode :: "byte list \<Rightarrow> string" where
  "base64_encode (a # b # c # rest) =
     [base64_char (unat a div 4),
      base64_char ((unat a mod 4) * 16 + unat b div 16),
      base64_char ((unat b mod 16) * 4 + unat c div 64),
      base64_char (unat c mod 64)] @ base64_encode rest"
| "base64_encode [a, b] =
     [base64_char (unat a div 4),
      base64_char ((unat a mod 4) * 16 + unat b div 16),
      base64_char ((unat b mod 16) * 4),
      CHR ''='']"
| "base64_encode [a] =
     [base64_char (unat a div 4),
      base64_char ((unat a mod 4) * 16),
      CHR ''='', CHR ''='']"
| "base64_encode [] = []"

text \<open>
  Modelled from the spec: base-64 decoding, which the round-trip property of the
  thumbnail framing speaks of and the source does not contain.
\<close>

fun index_of :: "'a list \<Rightarrow> 'a \<Rightarrow> nat option" where
  "index_of [] c = None"
| "index_of (x # xs) c = (if x = c then Some 0 else map_option Suc (index_of xs c))"

definition base64_index :: "char \<Rightarrow> nat option" where
  "base64_index c = index_of base64_alphabet c"

fun base64_decode :: "string \<Rightarrow> byte list option" where
  "base64_decode [] = Some []"
| "base64_decode (c0 # c1 # c2 # c3 # rest) =
     (case base64_index c0 of
        None \<Rightarrow> None
      | Some s0 \<Rightarrow>
          (case base64_index c1 of
             None \<Rightarrow> None
           | Some s1 \<Rightarrow>
               if rest = [] \<and> c2 = CHR ''='' \<and> c3 = CHR ''=''
               then Some [of_nat (s0 * 4 + s1 div 16)]
               else
                 (case base64_index c2 of
                    None \<Rightarrow> None
                  | Some s2 \<Rightarrow>
                      if rest = [] \<and> c3 = CHR ''=''
                      then Some [of_nat (s0 * 4 + s1 div 16),
                                 of_nat ((s1 mod 16) * 16 + s2 div 4)]
                      else
                        (case base64_index c3 of
                           None \<Rightarrow> None
                         | Some s3 \<Rightarrow>
                             map_option
                               (\<lambda>bs. of_nat (s0 * 4 + s1 div 16)
                                     # of_nat ((s1 mod 16) * 16 + s2 div 4)
                                     # of_nat ((s2 mod 4) * 64 + s3) # bs)
                               (base64_decode rest)))))"
| "base64_decode _ = None"

section \<open>The output file\<close>

text \<open>
  The destination \<open>FILE\<close> is written and never read. The model keeps every
  \<open>fwrite\<close> call as one element of \<open>written\<close>, in order, so that the text of the file
  is their concatenation; \<open>room\<close> is the number of characters the sink still takes,
  and a write that does not fit stores what fits and sets the error indicator, which
  stays set.
\<close>

record out_file =
  written :: "string list"
  room :: nat
  failed :: bool

definition fwrite :: "string \<Rightarrow> out_file \<Rightarrow> out_file" where
  "fwrite line f =
     (if length line \<le> room f
      then f\<lparr>written := written f @ [line], room := room f - length line\<rparr>
      else f\<lparr>written := written f @ [take (room f) line], room := 0, failed := True\<rparr>)"

definition ferror :: "out_file \<Rightarrow> bool" where
  "ferror f = failed f"

definition file_text :: "out_file \<Rightarrow> string" where
  "file_text f = concat (written f)"

text \<open>
  The lambdas \<open>write_line\<close> and \<open>write_metadata\<close> of \<open>from_binary_to_ascii\<close>; each
  returns its \<open>bool\<close> and the file.
\<close>

definition write_line :: "string \<Rightarrow> out_file \<Rightarrow> bool \<times> out_file" where
  "write_line line f = (let f' = fwrite line f in (\<not> ferror f', f'))"

definition metadata_line :: "string \<times> string \<Rightarrow> string" where
  "metadata_line item = ''; '' @ fst item @ '' = '' @ snd item @ [CHR 0x0A]"

fun write_metadata :: "(string \<times> string) list \<Rightarrow> out_file \<Rightarrow> bool \<times> out_file" where
  "write_metadata [] f = (\<not> ferror f, f)"
| "write_metadata (item # rest) f =
     (case write_line (metadata_line item) f of
        (ok, f') \<Rightarrow> if \<not> ok then (False, f') else write_metadata rest f')"

text \<open>The file after the writes \<open>lines\<close>, one call each, when all of them fit.\<close>

definition append_writes :: "string list \<Rightarrow> out_file \<Rightarrow> out_file" where
  "append_writes lines f =
     f\<lparr>written := written f @ lines, room := room f - length (concat lines)\<rparr>"

section \<open>Thumbnails as text\<close>

datatype EThumbnailFormat = PNG | JPG | QOI | OtherFormat nat

record ThumbnailBlock =
  format :: EThumbnailFormat
  width :: "16 word"
  height :: "16 word"
  data :: "byte list"

text \<open>The \<open>switch\<close> on the format; its \<open>default\<close> label shares the \<open>PNG\<close> branch.\<close>

fun format_name :: "EThumbnailFormat \<Rightarrow> string" where
  "format_name JPG = ''thumbnail_JPG''"
| "format_name QOI = ''thumbnail_QOI''"
| "format_name _ = ''thumbnail''"

definition max_row_length :: nat where
  "max_row_length = 78"

text \<open>A row of encoded text as the line the source writes for it.\<close>

definition body_line :: "string \<Rightarrow> string" where
  "body_line row = ''; '' @ row @ [CHR 0x0A]"

text \<open>
  \<^verbatim>\<open>while (encoded.size() > max_row_length) { write "; " + encoded.substr(0, max_row_length) + "\n";
      encoded = encoded.substr(max_row_length); }
  if (encoded.size() > 0) { write "; " + encoded + "\n"; }\<close>
  The result is \<open>False\<close> when a \<open>write_line\<close> failed, where the source returns
  \<open>WriteError\<close>.
\<close>

function write_rows :: "string \<Rightarrow> out_file \<Rightarrow> bool \<times> out_file" where
  "write_rows encoded f =
     (if length encoded > max_row_length then
        (case write_line (body_line (take max_row_length encoded)) f of
           (ok, f') \<Rightarrow>
             if \<not> ok then (False, f') else write_rows (drop max_row_length encoded) f')
      else if length encoded > 0 then write_line (body_line encoded) f
      else (True, f))"
  by pat_completeness auto
termination
  by (relation "measure (\<lambda>(encoded, f). length encoded)") (auto simp: max_row_length_def)

declare write_rows.simps [simp del]

text \<open>The begin line of a thumbnail framing, for the encoded text of its image.\<close>

definition begin_line :: "ThumbnailBlock \<Rightarrow> string \<Rightarrow> string" where
  "begin_line t encoded =
     [CHR 0x0A] @ '';'' @ [CHR 0x0A] @ ''; '' @ format_name (format t) @ '' begin ''
       @ to_string (unat (width t)) @ ''x'' @ to_string (unat (height t))
       @ '' '' @ to_string (length encoded) @ [CHR 0x0A]"

definition end_line :: "ThumbnailBlock \<Rightarrow> string" where
  "end_line t = ''; '' @ format_name (format t) @ '' end'' @ [CHR 0x0A] @ '';'' @ [CHR 0x0A]"

text \<open>
  One pass of the thumbnail loop's body after \<open>read_data\<close>: encode, begin line, rows,
  end line. \<open>False\<close> stands for the \<open>return EResult::WriteError\<close> of the source.
\<close>

definition write_thumbnail :: "ThumbnailBlock \<Rightarrow> out_file \<Rightarrow> bool \<times> out_file" where
  "write_thumbnail t f =
     (let encoded = base64_encode (data t) in
      case write_line (begin_line t encoded) f of
        (ok, f1) \<Rightarrow>
          if \<not> ok then (False, f1)
          else
            (case write_rows encoded f1 of
               (ok, f2) \<Rightarrow>
                 if \<not> ok then (False, f2)
                 else write_line (end_line t) f2))"

text \<open>
  The claim's wording of the body of a framing: the lines that carry the encoded text,
  and what is left of a body line without its \<open>"; "\<close> and its newline.
\<close>

function rows_of :: "string \<Rightarrow> string list" where
  "rows_of encoded =
     (if length encoded > max_row_length
      then take max_row_length encoded # rows_of (drop max_row_length encoded)
      else if length encoded > 0 then [encoded] else [])"
  by pat_completeness auto
termination
  by (relation "measure length") (auto simp: max_row_length_def)

declare rows_of.simps [simp del]

definition strip_body_line :: "string \<Rightarrow> string" where
  "strip_body_line line = butlast (drop 2 line)"

text \<open>The writes of one framing, in order.\<close>

definition framing :: "ThumbnailBlock \<Rightarrow> string list" where
  "framing t =
     begin_line t (base64_encode (data t))
       # map body_line (rows_of (base64_encode (data t))) @ [end_line t]"

section \<open>The source file and the Block Access Layer\<close>

text \<open>
  Modelled from the spec: the enumerations \<open>EResult\<close> and \<open>EBlockType\<close> and the
  types \<open>FileHeader\<close> and \<open>BlockHeader\<close>, which \<open>core.hpp\<close> declares and the
  sources do not include. \<open>EResult\<close> has the closed set of result codes of the
  spec, \<open>EBlockType\<close> its six block kinds; a block header carries its type tag and
  the declared length of its payload, a file header what identifies format and checksum.
\<close>

datatype EResult = Success | ReadError | WriteError | InvalidSequenceOfBlocks

datatype EBlockType =
  FileMetadata | GCode | SlicerMetadata | PrinterMetadata | PrintMetadata | Thumbnail

record FileHeader =
  version :: nat
  checksum_type :: nat

record BlockHeader =
  btype :: EBlockType
  payload_length :: nat

text \<open>
  The source \<open>FILE\<close>: what it holds, its length and the stream position. \<open>ftell\<close>,
  \<open>fseek\<close> and \<open>rewind\<close> are those of a seekable file.
\<close>

record 'c in_file =
  content :: 'c
  file_length :: int
  position :: int

definition ftell :: "'c in_file \<Rightarrow> int" where
  "ftell f = position f"

definition fseek_set :: "'c in_file \<Rightarrow> int \<Rightarrow> 'c in_file" where
  "fseek_set f offset = f\<lparr>position := offset\<rparr>"

definition fseek_end :: "'c in_file \<Rightarrow> 'c in_file" where
  "fseek_end f = f\<lparr>position := file_length f\<rparr>"

definition rewind :: "'c in_file \<Rightarrow> 'c in_file" where
  "rewind f = f\<lparr>position := 0\<rparr>"

text \<open>
  The functions of the Block Access Layer that \<open>from_binary_to_ascii\<close> calls are
  defined in the core library, outside the sources. They are parameters of the model,
  with the signatures of the call sites: each takes the source file and returns its
  \<open>EResult\<close>, what it stored through its reference arguments, and the file as it left
  it. Every theorem about \<open>from_binary_to_ascii\<close> below holds for any such layer.
\<close>

record 'c block_access =
  is_valid_binary_gcode :: "'c in_file \<Rightarrow> bool \<Rightarrow> EResult \<times> 'c in_file"
  read_header :: "'c in_file \<Rightarrow> EResult \<times> FileHeader \<times> 'c in_file"
  read_next_block_header ::
    "'c in_file \<Rightarrow> FileHeader \<Rightarrow> bool \<Rightarrow> EResult \<times> BlockHeader \<times> 'c in_file"
  read_next_block_header_of ::
    "'c in_file \<Rightarrow> FileHeader \<Rightarrow> EBlockType \<Rightarrow> bool \<Rightarrow> EResult \<times> BlockHeader \<times> 'c in_file"
  skip_block_content :: "'c in_file \<Rightarrow> FileHeader \<Rightarrow> BlockHeader \<Rightarrow> EResult \<times> 'c in_file"
  read_file_metadata ::
    "'c in_file \<Rightarrow> FileHeader \<Rightarrow> BlockHeader \<Rightarrow> EResult \<times> (string \<times> string) list \<times> 'c in_file"
  read_printer_metadata ::
    "'c in_file \<Rightarrow> FileHeader \<Rightarrow> BlockHeader \<Rightarrow> EResult \<times> (string \<times> string) list \<times> 'c in_file"
  read_thumbnail ::
    "'c in_file \<Rightarrow> FileHeader \<Rightarrow> BlockHeader \<Rightarrow> EResult \<times> ThumbnailBlock \<times> 'c in_file"
  read_gcode ::
    "'c in_file \<Rightarrow> FileHeader \<Rightarrow> BlockHeader \<Rightarrow> EResult \<times> string \<times> 'c in_file"
  read_print_metadata ::
    "'c in_file \<Rightarrow> FileHeader \<Rightarrow> BlockHeader \<Rightarrow> EResult \<times> (string \<times> string) list \<times> 'c in_file"
  read_slicer_metadata ::
    "'c in_file \<Rightarrow> FileHeader \<Rightarrow> BlockHeader \<Rightarrow> EResult \<times> (string \<times> string) list \<times> 'c in_file"

section \<open>The conversion\<close>

text \<open>
  What a call of \<open>from_binary_to_ascii\<close> leaves: the \<open>EResult\<close> it returns with the
  two files as they are at the \<open>return\<close>, or \<open>Undefined\<close> when
  \<open>remove_empty_lines\<close> stepped outside its string. Each part of the function below
  yields \<open>Inl\<close> of an outcome where the source returns, and \<open>Inr\<close> of the state it
  hands on otherwise.
\<close>

datatype 'c outcome = Return EResult "'c in_file" out_file | Undefined

text \<open>
  Lines 83 to 85: \<open>std::find_if\<close> for the first pair with the key \<open>"Producer"\<close>,
  and \<open>"Unknown"\<close> when there is none.
\<close>

definition producer_str :: "(string \<times> string) list \<Rightarrow> string" where
  "producer_str raw_data =
     (case find (\<lambda>item. fst item = ''Producer'') raw_data of
        Some item \<Rightarrow> snd item
      | None \<Rightarrow> ''Unknown'')"

text \<open>Lines 72 to 87: the file metadata block and the producer line.\<close>

definition convert_file_metadata ::
  "'c block_access \<Rightarrow> FileHeader \<Rightarrow> bool \<Rightarrow> 'c in_file \<Rightarrow> out_file
     \<Rightarrow> 'c outcome + ('c in_file \<times> out_file)" where
  "convert_file_metadata B file_header verify_checksum src dst =
     (case read_next_block_header B src file_header verify_checksum of
        (res, block_header, src1) \<Rightarrow>
          if res \<noteq> Success then Inl (Return res src1 dst)
          else if btype block_header \<noteq> FileMetadata
          then Inl (Return InvalidSequenceOfBlocks src1 dst)
          else
            (case read_file_metadata B src1 file_header block_header of
               (res, raw_data, src2) \<Rightarrow>
                 if res \<noteq> Success then Inl (Return res src2 dst)
                 else
                   (case write_line (''; generated by '' @ producer_str raw_data
                                       @ [CHR 0x0A, CHR 0x0A, CHR 0x0A]) dst of
                      (ok, dst1) \<Rightarrow>
                        if \<not> ok then Inl (Return WriteError src2 dst1)
                        else Inr (src2, dst1))))"

text \<open>Lines 92 to 104: the printer metadata block.\<close>

definition convert_printer_metadata ::
  "'c block_access \<Rightarrow> FileHeader \<Rightarrow> bool \<Rightarrow> 'c in_file \<Rightarrow> out_file
     \<Rightarrow> 'c outcome + ('c in_file \<times> out_file)" where
  "convert_printer_metadata B file_header verify_checksum src dst =
     (case read_next_block_header B src file_header verify_checksum of
        (res, block_header, src1) \<Rightarrow>
          if res \<noteq> Success then Inl (Return res src1 dst)
          else if btype block_header \<noteq> PrinterMetadata
          then Inl (Return InvalidSequenceOfBlocks src1 dst)
          else
            (case read_printer_metadata B src1 file_header block_header of
               (res, raw_data, src2) \<Rightarrow>
                 if res \<noteq> Success then Inl (Return res src2 dst)
                 else
                   (case write_metadata raw_data dst of
                      (ok, dst1) \<Rightarrow>
                        if \<not> ok then Inl (Return WriteError src2 dst1)
                        else Inr (src2, dst1))))"

text \<open>
  Lines 114 to 152: the thumbnail loop, entered with the header just read and the
  offset recorded before that read. It hands on the offset, the header that ended it
  and the files. The loop runs as long as the layer keeps delivering thumbnail headers,
  so the model is a partial function: \<open>None\<close> is a loop that does not end.
\<close>

partial_function (option) thumbnails_loop ::
  "'c block_access \<Rightarrow> FileHeader \<Rightarrow> bool \<Rightarrow> int \<Rightarrow> BlockHeader \<Rightarrow> 'c in_file \<Rightarrow> out_file
     \<Rightarrow> ('c outcome + (int \<times> BlockHeader \<times> 'c in_file \<times> out_file)) option" where
  "thumbnails_loop B file_header verify_checksum restore_position block_header src dst =
     (if btype block_header = Thumbnail then
        (case read_thumbnail B src file_header block_header of
           (res, thumbnail_block, src1) \<Rightarrow>
             if res \<noteq> Success then Some (Inl (Return res src1 dst))
             else
               (case write_thumbnail thumbnail_block dst of
                  (ok, dst1) \<Rightarrow>
                    if \<not> ok then Some (Inl (Return WriteError src1 dst1))
                    else
                      (case read_next_block_header B src1 file_header verify_checksum of
                         (res, block_header', src2) \<Rightarrow>
                           if res \<noteq> Success then Some (Inl (Return res src2 dst1))
                           else thumbnails_loop B file_header verify_checksum (ftell src1)
                                  block_header' src2 dst1)))
      else Some (Inr (restore_position, block_header, src, dst)))"

declare thumbnails_loop.simps [code]

text \<open>Lines 109 to 152: the offset is recorded, the first candidate header read.\<close>

definition convert_thumbnails ::
  "'c block_access \<Rightarrow> FileHeader \<Rightarrow> bool \<Rightarrow> 'c in_file \<Rightarrow> out_file
     \<Rightarrow> ('c outcome + (int \<times> BlockHeader \<times> 'c in_file \<times> out_file)) option" where
  "convert_thumbnails B file_header verify_checksum src dst =
     (let restore_position = ftell src in
      case read_next_block_header B src file_header verify_checksum of
        (res, block_header, src1) \<Rightarrow>
          if res \<noteq> Success then Some (Inl (Return res src1 dst))
          else thumbnails_loop B file_header verify_checksum restore_position
                 block_header src1 dst)"

text \<open>Lines 188 to 205: the GCode loop, entered with the header just read.\<close>

partial_function (option) gcode_loop ::
  "'c block_access \<Rightarrow> FileHeader \<Rightarrow> bool \<Rightarrow> int \<Rightarrow> BlockHeader \<Rightarrow> 'c in_file \<Rightarrow> out_file
     \<Rightarrow> ('c outcome + ('c in_file \<times> out_file)) option" where
  "gcode_loop B file_header verify_checksum file_size block_header src dst =
     (if btype block_header = GCode then
        (case read_gcode B src file_header block_header of
           (res, raw_data, src1) \<Rightarrow>
             if res \<noteq> Success then Some (Inl (Return res src1 dst))
             else
               (case remove_empty_lines raw_data of
                  None \<Rightarrow> Some (Inl Undefined)
                | Some out_str \<Rightarrow>
                    (case (if out_str \<noteq> [] then write_line out_str dst else (True, dst)) of
                       (ok, dst1) \<Rightarrow>
                         if \<not> ok then Some (Inl (Return WriteError src1 dst1))
                         else if ftell src1 = file_size then Some (Inr (src1, dst1))
                         else
                           (case read_next_block_header B src1 file_header verify_checksum of
                              (res, block_header', src2) \<Rightarrow>
                                if res \<noteq> Success then Some (Inl (Return res src2 dst1))
                                else gcode_loop B file_header verify_checksum file_size
                                       block_header' src2 dst1))))
      else Some (Inr (src, dst)))"

declare gcode_loop.simps [code]

text \<open>
  Lines 178 to 205: the gap line, the skip of the block whose header ended the
  thumbnail loop, the read of the next GCode header, the GCode loop.
\<close>

definition convert_gcode ::
  "'c block_access \<Rightarrow> FileHeader \<Rightarrow> bool \<Rightarrow> int \<Rightarrow> BlockHeader \<Rightarrow> 'c in_file \<Rightarrow> out_file
     \<Rightarrow> ('c outcome + ('c in_file \<times> out_file)) option" where
  "convert_gcode B file_header verify_checksum file_size block_header src dst =
     (case write_line [CHR 0x0A] dst of
        (ok, dst1) \<Rightarrow>
          if \<not> ok then Some (Inl (Return WriteError src dst1))
          else
            (case skip_block_content B src file_header block_header of
               (res, src1) \<Rightarrow>
                 if res \<noteq> Success then Some (Inl (Return res src1 dst1))
                 else
                   (case read_next_block_header_of B src1 file_header GCode verify_checksum of
                      (res, block_header', src2) \<Rightarrow>
                        if res \<noteq> Success then Some (Inl (Return res src2 dst1))
                        else gcode_loop B file_header verify_checksum file_size
                               block_header' src2 dst1)))"

text \<open>Lines 210 to 225: back to the recorded offset, the print metadata block.\<close>

definition convert_print_metadata ::
  "'c block_access \<Rightarrow> FileHeader \<Rightarrow> bool \<Rightarrow> int \<Rightarrow> 'c in_file \<Rightarrow> out_file
     \<Rightarrow> 'c outcome + ('c in_file \<times> out_file)" where
  "convert_print_metadata B file_header verify_checksum restore_position src dst =
     (case read_next_block_header B (fseek_set src restore_position) file_header
             verify_checksum of
        (res, block_header, src1) \<Rightarrow>
          if res \<noteq> Success then Inl (Return res src1 dst)
          else if btype block_header \<noteq> PrintMetadata
          then Inl (Return InvalidSequenceOfBlocks src1 dst)
          else
            (case read_print_metadata B src1 file_header block_header of
               (res, raw_data, src2) \<Rightarrow>
                 if res \<noteq> Success then Inl (Return res src2 dst)
                 else
                   (case write_line [CHR 0x0A] dst of
                      (ok, dst1) \<Rightarrow>
                        if \<not> ok then Inl (Return WriteError src2 dst1)
                        else
                          (case write_metadata raw_data dst1 of
                             (ok, dst2) \<Rightarrow>
                               if \<not> ok then Inl (Return WriteError src2 dst2)
                               else Inr (src2, dst2)))))"

text \<open>Lines 230 to 248: the slicer metadata block and the final \<open>return\<close>.\<close>

definition convert_slicer_metadata ::
  "'c block_access \<Rightarrow> FileHeader \<Rightarrow> bool \<Rightarrow> 'c in_file \<Rightarrow> out_file \<Rightarrow> 'c outcome" where
  "convert_slicer_metadata B file_header verify_checksum src dst =
     (case read_next_block_header B src file_header verify_checksum of
        (res, block_header, src1) \<Rightarrow>
          if res \<noteq> Success then Return res src1 dst
          else if btype block_header \<noteq> SlicerMetadata
          then Return InvalidSequenceOfBlocks src1 dst
          else
            (case read_slicer_metadata B src1 file_header block_header of
               (res, raw_data, src2) \<Rightarrow>
                 if res \<noteq> Success then Return res src2 dst
                 else
                   (case write_line ([CHR 0x0A] @ ''; prusaslicer_config = begin''
                                       @ [CHR 0x0A]) dst of
                      (ok, dst1) \<Rightarrow>
                        if \<not> ok then Return WriteError src2 dst1
                        else
                          (case write_metadata raw_data dst1 of
                             (ok, dst2) \<Rightarrow>
                               if \<not> ok then Return WriteError src2 dst2
                               else
                                 (case write_line (''; prusaslicer_config = end''
                                                     @ [CHR 0x0A, CHR 0x0A]) dst2 of
                                    (ok, dst3) \<Rightarrow>
                                      if \<not> ok then Return WriteError src2 dst3
                                      else Return Success src2 dst3)))))"

text \<open>
  The parts in sequence. Each of the following functions is \<open>from_binary_to_ascii\<close>
  from one point of its text to its end: it runs one part and, unless that part
  returned, the rest. \<open>restore_position\<close> and \<open>file_size\<close> are the locals of these
  names.
\<close>

text \<open>Lines 210 to 248.\<close>

definition finish_metadata ::
  "'c block_access \<Rightarrow> FileHeader \<Rightarrow> bool \<Rightarrow> int \<Rightarrow> 'c in_file \<Rightarrow> out_file \<Rightarrow> 'c outcome" where
  "finish_metadata B file_header verify_checksum restore_position src dst =
     (case convert_print_metadata B file_header verify_checksum restore_position src dst of
        Inl out \<Rightarrow> out
      | Inr (src1, dst1) \<Rightarrow> convert_slicer_metadata B file_header verify_checksum src1 dst1)"

text \<open>Lines 178 to 248.\<close>

definition from_gcode ::
  "'c block_access \<Rightarrow> FileHeader \<Rightarrow> bool \<Rightarrow> int \<Rightarrow> int \<Rightarrow> BlockHeader \<Rightarrow> 'c in_file
     \<Rightarrow> out_file \<Rightarrow> 'c outcome option" where
  "from_gcode B file_header verify_checksum file_size restore_position block_header src dst =
     (case convert_gcode B file_header verify_checksum file_size block_header src dst of
        None \<Rightarrow> None
      | Some (Inl out) \<Rightarrow> Some out
      | Some (Inr (src1, dst1)) \<Rightarrow>
          Some (finish_metadata B file_header verify_checksum restore_position src1 dst1))"

text \<open>Lines 109 to 248.\<close>

definition from_thumbnails ::
  "'c block_access \<Rightarrow> FileHeader \<Rightarrow> bool \<Rightarrow> int \<Rightarrow> 'c in_file \<Rightarrow> out_file
     \<Rightarrow> 'c outcome option" where
  "from_thumbnails B file_header verify_checksum file_size src dst =
     (case convert_thumbnails B file_header verify_checksum src dst of
        None \<Rightarrow> None
      | Some (Inl out) \<Rightarrow> Some out
      | Some (Inr (restore_position, block_header, src1, dst1)) \<Rightarrow>
          from_gcode B file_header verify_checksum file_size restore_position
            block_header src1 dst1)"

text \<open>Lines 92 to 248.\<close>

definition from_printer_metadata ::
  "'c block_access \<Rightarrow> FileHeader \<Rightarrow> bool \<Rightarrow> int \<Rightarrow> 'c in_file \<Rightarrow> out_file
     \<Rightarrow> 'c outcome option" where
  "from_printer_metadata B file_header verify_checksum file_size src dst =
     (case convert_printer_metadata B file_header verify_checksum src dst of
        Inl out \<Rightarrow> Some out
      | Inr (src1, dst1) \<Rightarrow>
          from_thumbnails B file_header verify_checksum file_size src1 dst1)"

text \<open>Lines 72 to 248.\<close>

definition convert_blocks ::
  "'c block_access \<Rightarrow> FileHeader \<Rightarrow> bool \<Rightarrow> int \<Rightarrow> 'c in_file \<Rightarrow> out_file
     \<Rightarrow> 'c outcome option" where
  "convert_blocks B file_header verify_checksum file_size src dst =
     (case convert_file_metadata B file_header verify_checksum src dst of
        Inl out \<Rightarrow> Some out
      | Inr (src1, dst1) \<Rightarrow>
          from_printer_metadata B file_header verify_checksum file_size src1 dst1)"

text \<open>Lines 35 to 248: validation, the file size, the file header, the blocks.\<close>

definition from_binary_to_ascii ::
  "'c block_access \<Rightarrow> 'c in_file \<Rightarrow> out_file \<Rightarrow> bool \<Rightarrow> 'c outcome option" where
  "from_binary_to_ascii B src_file dst_file verify_checksum =
     (case is_valid_binary_gcode B src_file True of
        (res, src1) \<Rightarrow>
          if res \<noteq> Success then Some (Return res src1 dst_file)
          else
            (let src2 = fseek_end src1;
                 file_size = ftell src2;
                 src3 = rewind src2
             in case read_header B src3 of
                  (res, file_header, src4) \<Rightarrow>
                    if res \<noteq> Success then Some (Return res src4 dst_file)
                    else convert_blocks B file_header verify_checksum file_size
                           src4 dst_file))"

text \<open>\<open>from_ascii_to_binary\<close> returns \<open>Success\<close> and touches neither file.\<close>

definition from_ascii_to_binary :: "'c in_file \<Rightarrow> out_file \<Rightarrow> 'c outcome" where
  "from_ascii_to_binary src_file dst_file = Return Success src_file dst_file"

section \<open>Notions for the statements\<close>

text \<open>
  What a caller sees of a call: the result code and the text of the output file.
\<close>

fun result_of :: "'c outcome option \<Rightarrow> (EResult \<times> string) option" where
  "result_of (Some (Return res src dst)) = Some (res, file_text dst)"
| "result_of _ = None"

text \<open>
  "The input holds the thumbnail blocks \<open>ts\<close>": from the header \<open>block_header\<close> just
  read, the layer delivers the thumbnails \<open>ts\<close>, one per header, and then a header of
  another type. The value is the offset recorded before that last header was read, that
  header, and the file after it.
\<close>

fun read_thumbnails ::
  "'c block_access \<Rightarrow> FileHeader \<Rightarrow> bool \<Rightarrow> ThumbnailBlock list \<Rightarrow> int \<Rightarrow> BlockHeader
     \<Rightarrow> 'c in_file \<Rightarrow> (int \<times> BlockHeader \<times> 'c in_file) option" where
  "read_thumbnails B file_header verify_checksum [] restore_position block_header src =
     (if btype block_header \<noteq> Thumbnail then Some (restore_position, block_header, src)
      else None)"
| "read_thumbnails B file_header verify_checksum (t # ts) restore_position block_header src =
     (if btype block_header = Thumbnail then
        (case read_thumbnail B src file_header block_header of
           (res, t', src1) \<Rightarrow>
             if res = Success \<and> t' = t then
               (case read_next_block_header B src1 file_header verify_checksum of
                  (res, block_header', src2) \<Rightarrow>
                    if res = Success
                    then read_thumbnails B file_header verify_checksum ts (ftell src1)
                           block_header' src2
                    else None)
             else None)
      else None)"

text \<open>
  "Output already written stays": the output file of an outcome begins with the writes
  of \<open>dst\<close>.
\<close>

fun output_extends :: "out_file \<Rightarrow> 'c outcome \<Rightarrow> bool" where
  "output_extends dst (Return res src dst') = prefix (written dst) (written dst')"
| "output_extends dst Undefined = True"

section \<open>A Block Access Layer after the spec\<close>

text \<open>
  Modelled from the spec: a Block Access Layer over a container that is the sequence
  of its blocks, each a type tag and a payload of the shape the spec gives for
  the block kinds. Offsets count the file header as one unit and every block header
  and every payload as one unit each: block \<open>i\<close> has its header at offset \<open>1 + 2 i\<close>
  and its payload at \<open>2 + 2 i\<close>. A header read gives the header of the block that
  starts at the stream position; a header read with an expected type that finds another
  type yields the sequence error; a payload read decodes the payload at the stream
  position, and a skip steps over it. Checksums always verify.
\<close>

datatype payload = Pairs "(string \<times> string) list" | Image ThumbnailBlock | Text string

record stored_block =
  kind :: EBlockType
  payload :: payload

type_synonym container = "stored_block list"

definition header_at :: "container in_file \<Rightarrow> stored_block option" where
  "header_at f =
     (let p = position f in
      if 1 \<le> p \<and> p mod 2 = 1 \<and> nat ((p - 1) div 2) < length (content f)
      then Some (content f ! nat ((p - 1) div 2)) else None)"

definition payload_at :: "container in_file \<Rightarrow> stored_block option" where
  "payload_at f =
     (let p = position f in
      if 2 \<le> p \<and> p mod 2 = 0 \<and> nat ((p - 2) div 2) < length (content f)
      then Some (content f ! nat ((p - 2) div 2)) else None)"

definition advance :: "container in_file \<Rightarrow> container in_file" where
  "advance f = f\<lparr>position := position f + 1\<rparr>"

text \<open>The file header this layer reads, and the block header it reads for a type.\<close>

definition header1 :: FileHeader where
  "header1 = \<lparr>version = 1, checksum_type = 0\<rparr>"

definition header_of :: "EBlockType \<Rightarrow> BlockHeader" where
  "header_of t = \<lparr>btype = t, payload_length = 1\<rparr>"

definition no_header :: BlockHeader where
  "no_header = \<lparr>btype = FileMetadata, payload_length = 0\<rparr>"

definition spec_is_valid_binary_gcode ::
  "container in_file \<Rightarrow> bool \<Rightarrow> EResult \<times> container in_file" where
  "spec_is_valid_binary_gcode f strict = (Success, f)"

definition spec_read_header ::
  "container in_file \<Rightarrow> EResult \<times> FileHeader \<times> container in_file" where
  "spec_read_header f =
     (if position f = 0 \<and> 0 < file_length f
      then (Success, header1, advance f)
      else (ReadError, \<lparr>version = 0, checksum_type = 0\<rparr>, f))"

definition spec_read_next_block_header ::
  "container in_file \<Rightarrow> FileHeader \<Rightarrow> bool \<Rightarrow> EResult \<times> BlockHeader \<times> container in_file" where
  "spec_read_next_block_header f file_header verify_checksum =
     (case header_at f of
        None \<Rightarrow> (ReadError, no_header, f)
      | Some b \<Rightarrow> (Success, header_of (kind b), advance f))"

definition spec_read_next_block_header_of ::
  "container in_file \<Rightarrow> FileHeader \<Rightarrow> EBlockType \<Rightarrow> bool
     \<Rightarrow> EResult \<times> BlockHeader \<times> container in_file" where
  "spec_read_next_block_header_of f file_header expected verify_checksum =
     (case spec_read_next_block_header f file_header verify_checksum of
        (res, block_header, f') \<Rightarrow>
          if res \<noteq> Success then (res, block_header, f')
          else if btype block_header \<noteq> expected
          then (InvalidSequenceOfBlocks, block_header, f')
          else (Success, block_header, f'))"

definition spec_skip_block_content ::
  "container in_file \<Rightarrow> FileHeader \<Rightarrow> BlockHeader \<Rightarrow> EResult \<times> container in_file" where
  "spec_skip_block_content f file_header block_header =
     (case payload_at f of
        None \<Rightarrow> (ReadError, f)
      | Some b \<Rightarrow> (Success, advance f))"

definition spec_read_pairs ::
  "container in_file \<Rightarrow> FileHeader \<Rightarrow> BlockHeader
     \<Rightarrow> EResult \<times> (string \<times> string) list \<times> container in_file" where
  "spec_read_pairs f file_header block_header =
     (case payload_at f of
        None \<Rightarrow> (ReadError, [], f)
      | Some b \<Rightarrow>
          (case payload b of
             Pairs raw_data \<Rightarrow>
               if kind b = btype block_header then (Success, raw_data, advance f)
               else (ReadError, [], f)
           | _ \<Rightarrow> (ReadError, [], f)))"

definition no_thumbnail :: ThumbnailBlock where
  "no_thumbnail = \<lparr>format = PNG, width = 0, height = 0, data = []\<rparr>"

definition spec_read_thumbnail ::
  "container in_file \<Rightarrow> FileHeader \<Rightarrow> BlockHeader
     \<Rightarrow> EResult \<times> ThumbnailBlock \<times> container in_file" where
  "spec_read_thumbnail f file_header block_header =
     (case payload_at f of
        None \<Rightarrow> (ReadError, no_thumbnail, f)
      | Some b \<Rightarrow>
          (case payload b of
             Image t \<Rightarrow>
               if kind b = btype block_header then (Success, t, advance f)
               else (ReadError, no_thumbnail, f)
           | _ \<Rightarrow> (ReadError, no_thumbnail, f)))"

definition spec_read_gcode ::
  "container in_file \<Rightarrow> FileHeader \<Rightarrow> BlockHeader \<Rightarrow> EResult \<times> string \<times> container in_file" where
  "spec_read_gcode f file_header block_header =
     (case payload_at f of
        None \<Rightarrow> (ReadError, [], f)
      | Some b \<Rightarrow>
          (case payload b of
             Text raw_data \<Rightarrow>
               if kind b = btype block_header then (Success, raw_data, advance f)
               else (ReadError, [], f)
           | _ \<Rightarrow> (ReadError, [], f)))"

definition spec_layer :: "container block_access" where
  "spec_layer =
     \<lparr>is_valid_binary_gcode = spec_is_valid_binary_gcode,
      read_header = spec_read_header,
      read_next_block_header = spec_read_next_block_header,
      read_next_block_header_of = spec_read_next_block_header_of,
      skip_block_content = spec_skip_block_content,
      read_file_metadata = spec_read_pairs,
      read_printer_metadata = spec_read_pairs,
      read_thumbnail = spec_read_thumbnail,
      read_gcode = spec_read_gcode,
      read_print_metadata = spec_read_pairs,
      read_slicer_metadata = spec_read_pairs\<rparr>"

text \<open>A container as a freshly opened file, and an empty sink with room for \<open>n\<close> characters.\<close>

definition container_file :: "container \<Rightarrow> container in_file" where
  "container_file blocks =
     \<lparr>content = blocks, file_length = 1 + 2 * int (length blocks), position = 0\<rparr>"

definition empty_file :: "nat \<Rightarrow> out_file" where
  "empty_file n = \<lparr>written = [], room = n, failed = False\<rparr>"

text \<open>The input of the spec's example, its blocks in the order the spec mandates.\<close>

definition example_blocks :: container where
  "example_blocks =
     [\<lparr>kind = FileMetadata, payload = Pairs []\<rparr>,
      \<lparr>kind = PrinterMetadata, payload = Pairs [(''Printer'', ''X1'')]\<rparr>,
      \<lparr>kind = GCode,
       payload = Text (text_of_lines [''G1 X0'', ''; comment'', '''', ''G1 X1''])\<rparr>,
      \<lparr>kind = PrintMetadata, payload = Pairs [(''Layers'', ''10'')]\<rparr>,
      \<lparr>kind = SlicerMetadata, payload = Pairs [(''nozzle'', ''0.4'')]\<rparr>]"

section \<open>A layer that looks for the expected block\<close>

text \<open>
  A second layer over the same containers, for inputs that store the print and slicer
  metadata before the GCode blocks. It differs from \<open>spec_layer\<close> in the header read
  with an expected type, which steps over the blocks of other types until it finds a
  header of the expected one and fails at the end of the file.
\<close>

fun seek_header ::
  "nat \<Rightarrow> container in_file \<Rightarrow> FileHeader \<Rightarrow> EBlockType \<Rightarrow> bool
     \<Rightarrow> EResult \<times> BlockHeader \<times> container in_file" where
  "seek_header 0 f file_header expected verify_checksum = (ReadError, no_header, f)"
| "seek_header (Suc n) f file_header expected verify_checksum =
     (case spec_read_next_block_header f file_header verify_checksum of
        (res, block_header, f1) \<Rightarrow>
          if res \<noteq> Success then (res, block_header, f1)
          else if btype block_header = expected then (Success, block_header, f1)
          else
            (case spec_skip_block_content f1 file_header block_header of
               (res, f2) \<Rightarrow>
                 if res \<noteq> Success then (res, block_header, f2)
                 else seek_header n f2 file_header expected verify_checksum))"

definition seek_layer :: "container block_access" where
  "seek_layer =
     spec_layer\<lparr>read_next_block_header_of :=
       (\<lambda>f file_header expected verify_checksum.
          seek_header (length (content f)) f file_header expected verify_checksum)\<rparr>"

text \<open>The blocks of the spec's example, the metadata stored before the GCode block.\<close>

definition stored_example :: container where
  "stored_example =
     [\<lparr>kind = FileMetadata, payload = Pairs []\<rparr>,
      \<lparr>kind = PrinterMetadata, payload = Pairs [(''Printer'', ''X1'')]\<rparr>,
      \<lparr>kind = PrintMetadata, payload = Pairs [(''Layers'', ''10'')]\<rparr>,
      \<lparr>kind = SlicerMetadata, payload = Pairs [(''nozzle'', ''0.4'')]\<rparr>,
      \<lparr>kind = GCode,
       payload = Text (text_of_lines [''G1 X0'', ''; comment'', '''', ''G1 X1''])\<rparr>]"

text \<open>
  The same blocks with a GCode payload of one line that no newline follows.
\<close>

definition unterminated_example :: container where
  "unterminated_example =
     [\<lparr>kind = FileMetadata, payload = Pairs []\<rparr>,
      \<lparr>kind = PrinterMetadata, payload = Pairs [(''Printer'', ''X1'')]\<rparr>,
      \<lparr>kind = PrintMetadata, payload = Pairs [(''Layers'', ''10'')]\<rparr>,
      \<lparr>kind = SlicerMetadata, payload = Pairs [(''nozzle'', ''0.4'')]\<rparr>,
      \<lparr>kind = GCode, payload = Text ''G1 X0''\<rparr>]"

text \<open>The same with two thumbnails after the printer metadata and a second GCode block.\<close>

definition small_png :: ThumbnailBlock where
  "small_png = \<lparr>format = PNG, width = 16, height = 16, data = [77, 97, 110, 33]\<rparr>"

definition small_qoi :: ThumbnailBlock where
  "small_qoi = \<lparr>format = QOI, width = 220, height = 124, data = [1, 2, 3, 4, 5]\<rparr>"

definition stored_with_thumbnails :: container where
  "stored_with_thumbnails =
     [\<lparr>kind = FileMetadata, payload = Pairs [(''Producer'', ''Slicer 2.6'')]\<rparr>,
      \<lparr>kind = PrinterMetadata, payload = Pairs [(''Printer'', ''X1'')]\<rparr>,
      \<lparr>kind = Thumbnail, payload = Image small_png\<rparr>,
      \<lparr>kind = Thumbnail, payload = Image small_qoi\<rparr>,
      \<lparr>kind = PrintMetadata, payload = Pairs [(''Layers'', ''10'')]\<rparr>,
      \<lparr>kind = SlicerMetadata, payload = Pairs [(''nozzle'', ''0.4'')]\<rparr>,
      \<lparr>kind = GCode, payload = Text (text_of_lines [''G1 X0'', '';''])\<rparr>,
      \<lparr>kind = GCode, payload = Text (text_of_lines [''G1 X1 ; move''])\<rparr>]"

text \<open>A container as a file at a given offset.\<close>

definition at_offset :: "container \<Rightarrow> int \<Rightarrow> container in_file" where
  "at_offset blocks p = (container_file blocks)\<lparr>position := p\<rparr>"


text \<open>Containers with a block of the wrong type at each of the four mandated places.\<close>

definition wrong_first :: container where
  "wrong_first = [\<lparr>kind = GCode, payload = Text (text_of_lines [''G1 X0''])\<rparr>]"

definition wrong_second :: container where
  "wrong_second =
     [\<lparr>kind = FileMetadata, payload = Pairs []\<rparr>,
      \<lparr>kind = GCode, payload = Text (text_of_lines [''G1 X0''])\<rparr>]"

definition wrong_third :: container where
  "wrong_third =
     [\<lparr>kind = FileMetadata, payload = Pairs []\<rparr>,
      \<lparr>kind = PrinterMetadata, payload = Pairs []\<rparr>,
      \<lparr>kind = GCode, payload = Text (text_of_lines [''G1 X0''])\<rparr>,
      \<lparr>kind = GCode, payload = Text (text_of_lines [''G1 X1''])\<rparr>]"

text \<open>
  Two containers that differ in the payload of their third block only, the block whose
  header ends the thumbnail loop.
\<close>

definition layers_10 :: container where
  "layers_10 =
     [\<lparr>kind = FileMetadata, payload = Pairs []\<rparr>,
      \<lparr>kind = PrinterMetadata, payload = Pairs []\<rparr>,
      \<lparr>kind = PrintMetadata, payload = Pairs [(''Layers'', ''10'')]\<rparr>,
      \<lparr>kind = GCode, payload = Text (text_of_lines [''G1 X0''])\<rparr>]"

definition layers_20 :: container where
  "layers_20 = layers_10[2 := \<lparr>kind = PrintMetadata, payload = Pairs [(''Layers'', ''20'')]\<rparr>]"

text \<open>The stored example with a file metadata block that has pairs, none a producer.\<close>

definition no_producer :: container where
  "no_producer =
     stored_example[0 := \<lparr>kind = FileMetadata,
                            payload = Pairs [(''Produced on'', ''2023-07-12'')]\<rparr>]"

text \<open>The writes of a successful conversion of the stored example.\<close>

definition example_writes :: "string list" where
  "example_writes =
     [''; generated by Unknown'' @ [CHR 0x0A, CHR 0x0A, CHR 0x0A],
      metadata_line (''Printer'', ''X1''),
      [CHR 0x0A],
      text_of_lines [''G1 X0'', ''; comment'', ''G1 X1''],
      [CHR 0x0A],
      metadata_line (''Layers'', ''10''),
      [CHR 0x0A] @ ''; prusaslicer_config = begin'' @ [CHR 0x0A],
      metadata_line (''nozzle'', ''0.4''),
      ''; prusaslicer_config = end'' @ [CHR 0x0A, CHR 0x0A]]"

text \<open>
  "Two containers that differ only in the payload of one block", and what a run shows
  of the source file apart from the container itself: its length and the stream position.
\<close>

definition replace_payload :: "container \<Rightarrow> nat \<Rightarrow> payload \<Rightarrow> container" where
  "replace_payload c i p = c[i := (c ! i)\<lparr>payload := p\<rparr>]"

definition forget :: "'c in_file \<Rightarrow> unit in_file" where
  "forget f = \<lparr>content = (), file_length = file_length f, position = position f\<rparr>"

fun forget_outcome :: "'c outcome \<Rightarrow> unit outcome" where
  "forget_outcome (Return res src dst) = Return res (forget src) dst"
| "forget_outcome Undefined = Undefined"

fun seen ::
  "('c outcome + ('c in_file \<times> out_file)) option
     \<Rightarrow> (unit outcome + (unit in_file \<times> out_file)) option" where
  "seen None = None"
| "seen (Some (Inl out)) = Some (Inl (forget_outcome out))"
| "seen (Some (Inr (src, dst))) = Some (Inr (forget src, dst))"

section \<open>Properties of the text utilities\<close>

lemma trim_start_scan:
  assumes "i \<le> k" "k \<le> length str - 1"
    and "\<forall>j. i \<le> j \<and> j < k \<longrightarrow> is_blank (str ! j)"
    and "k = length str - 1 \<or> \<not> is_blank (str ! k)"
  shows "trim_start str i = Some k"
  using assms
proof (induction "k - i" arbitrary: i)
  case 0
  then have ik: "i = k" by simp
  show ?case
  proof (cases "k = length str - 1")
    case True
    with ik show ?thesis by (simp add: trim_start.simps)
  next
    case False
    with 0 ik have "k < length str - 1" "\<not> is_blank (str ! k)" by auto
    with ik show ?thesis by (simp add: trim_start.simps char_at_def)
  qed
next
  case (Suc d)
  then have lt: "i < k" by simp
  with Suc.prems have b: "is_blank (str ! i)" and il: "i < length str - 1" by auto
  have "trim_start str (i + 1) = Some k"
  proof (rule Suc.hyps(1))
    show "d = k - (i + 1)" using Suc.hyps(2) by simp
    show "i + 1 \<le> k" using lt by simp
    show "k \<le> length str - 1" by (rule Suc.prems(2))
    show "\<forall>j. i + 1 \<le> j \<and> j < k \<longrightarrow> is_blank (str ! j)" using Suc.prems(3) by auto
    show "k = length str - 1 \<or> \<not> is_blank (str ! k)" by (rule Suc.prems(4))
  qed
  with b il show ?case by (subst trim_start.simps) (simp add: char_at_def)
qed

lemma trim_end_scan:
  assumes "k \<le> e" "e < length str"
    and "\<forall>j. k < j \<and> j \<le> e \<longrightarrow> is_blank (str ! j)"
    and "k = 0 \<or> \<not> is_blank (str ! k)"
  shows "trim_end str e = Some k"
  using assms
proof (induction "e - k" arbitrary: e)
  case 0
  then have ek: "e = k" by simp
  show ?case
  proof (cases "k = 0")
    case True
    with ek show ?thesis by (simp add: trim_end.simps)
  next
    case False
    with 0 ek have "\<not> is_blank (str ! k)" "k < length str" by auto
    with ek False show ?thesis by (simp add: trim_end.simps char_at_def)
  qed
next
  case (Suc d)
  then have lt: "k < e" by simp
  with Suc.prems have b: "is_blank (str ! e)" and el: "e < length str" by auto
  have "trim_end str (e - 1) = Some k"
  proof (rule Suc.hyps(1))
    show "d = e - 1 - k" using Suc.hyps(2) by simp
    show "k \<le> e - 1" using lt by simp
    show "e - 1 < length str" using el by simp
    show "\<forall>j. k < j \<and> j \<le> e - 1 \<longrightarrow> is_blank (str ! j)" using Suc.prems(3) by auto
    show "k = 0 \<or> \<not> is_blank (str ! k)" by (rule Suc.prems(4))
  qed
  with b el lt show ?case by (subst trim_end.simps) (simp add: char_at_def)
qed

lemma trim_all_blank:
  assumes "\<forall>c\<in>set s. is_blank c"
  shows "trim s = Some []"
proof (cases "s = []")
  case True
  then show ?thesis by (simp add: trim_def)
next
  case False
  then have n: "0 < length s" by simp
  have st: "trim_start s 0 = Some (length s - 1)"
    by (rule trim_start_scan) (use assms n in auto)
  have en: "trim_end s (length s - 1) = Some 0"
    by (rule trim_end_scan) (use assms n in auto)
  have "is_blank (s ! 0)" using assms n by auto
  with st en False n show ?thesis
    by (auto simp: trim_def char_at_def)
qed

lemma trim_spec_all_blank: "(\<forall>c\<in>set s. is_blank c) \<Longrightarrow> trim_spec s = []"
proof -
  assume "\<forall>c\<in>set s. is_blank c"
  then have h: "dropWhile is_blank s = []" by simp
  show ?thesis unfolding trim_spec_def h by simp
qed

lemma rev_dropWhile_rev:
  "rev (dropWhile P (rev t)) = take (length t - length (takeWhile P (rev t))) t"
proof -
  have "dropWhile P (rev t) = drop (length (takeWhile P (rev t))) (rev t)"
    by (rule dropWhile_eq_drop)
  then show ?thesis by (simp add: rev_drop)
qed

lemma takeWhile_lt_length:
  "\<exists>c\<in>set s. \<not> P c \<Longrightarrow> length (takeWhile P s) < length s"
  by (induction s) auto

lemma trim_not_all_blank:
  assumes ex: "\<exists>c\<in>set s. \<not> is_blank c"
  shows "trim s = Some (trim_spec s)"
proof -
  define a where "a = length (takeWhile is_blank s)"
  define b where "b = length (takeWhile is_blank (rev s))"
  define n where "n = length s"
  from ex have ne: "s \<noteq> []" by auto
  have a_lt: "a < n" unfolding a_def n_def
    using ex by (rule takeWhile_lt_length)
  have b_lt: "b < n" unfolding b_def n_def
    using takeWhile_lt_length[of "rev s" is_blank] ex by simp
  have a_nb: "\<not> is_blank (s ! a)" unfolding a_def
    using a_lt[unfolded a_def n_def] by (rule nth_length_takeWhile)
  have a_bl: "\<forall>j<a. is_blank (s ! j)" unfolding a_def
    by (metis nth_mem set_takeWhileD takeWhile_nth)
  have rb_nb: "\<not> is_blank (rev s ! b)" unfolding b_def
    using b_lt[unfolded b_def n_def] by (intro nth_length_takeWhile) simp
  have rb_bl: "\<forall>j<b. is_blank (rev s ! j)" unfolding b_def
    by (metis nth_mem set_takeWhileD takeWhile_nth)
  define z where "z = n - 1 - b"
  have z_lt: "z < n" unfolding z_def using b_lt by simp
  have z_nb: "\<not> is_blank (s ! z)"
    using rb_nb b_lt by (simp add: rev_nth z_def n_def)
  have z_bl: "\<forall>j. z < j \<and> j < n \<longrightarrow> is_blank (s ! j)"
  proof (intro allI impI)
    fix j assume j: "z < j \<and> j < n"
    then have "n - 1 - j < b" unfolding z_def by arith
    with rb_bl have "is_blank (rev s ! (n - 1 - j))" by simp
    moreover have "rev s ! (n - 1 - j) = s ! (length s - Suc (n - 1 - j))"
      using j by (intro rev_nth) (auto simp: n_def)
    moreover have "length s - Suc (n - 1 - j) = j"
      using j by (auto simp: n_def)
    ultimately show "is_blank (s ! j)" by simp
  qed
  have az: "a \<le> z"
  proof (rule ccontr)
    assume "\<not> a \<le> z"
    then have "z < a" by simp
    with a_bl z_nb show False by simp
  qed
  have st: "trim_start s 0 = Some a"
    by (rule trim_start_scan) (use a_lt a_bl a_nb in \<open>auto simp: n_def\<close>)
  have en: "trim_end s (length s - 1) = Some z"
    by (rule trim_end_scan) (use z_lt z_bl z_nb ne in \<open>auto simp: n_def\<close>)
  have tr: "trim s = Some (take (z - a + 1) (drop a s))"
    using st en ne az z_nb z_lt
    by (auto simp: trim_def char_at_def sub_view_def n_def)
  have d: "dropWhile is_blank s = drop a s"
    unfolding a_def by (rule dropWhile_eq_drop)
  have "\<exists>c\<in>set (drop a s). \<not> is_blank c"
    using a_nb a_lt by (metis Cons_nth_drop_Suc list.set_intros(1) n_def)
  then have "takeWhile is_blank (rev s) = takeWhile is_blank (rev (drop a s))"
    by (metis append_take_drop_id rev_append set_rev takeWhile_append1)
  then have b': "length (takeWhile is_blank (rev (drop a s))) = b"
    by (simp add: b_def)
  have "trim_spec s = take (length (drop a s) - b) (drop a s)"
    unfolding trim_spec_def d by (simp only: rev_dropWhile_rev b')
  also have "length (drop a s) - b = z - a + 1"
    using az b_lt a_lt by (simp add: z_def n_def)
  finally show ?thesis using tr by simp
qed

lemma trim_total: "trim s = Some (trim_spec s)"
proof (cases "\<forall>c\<in>set s. is_blank c")
  case True
  then show ?thesis by (simp add: trim_all_blank trim_spec_all_blank)
next
  case False
  then show ?thesis by (simp add: trim_not_all_blank)
qed


text \<open>
  Claim C7. For every string \<open>s\<close>, \<open>trim\<close> returns \<open>s\<close> without its leading and
  trailing spaces and tabs; the result is empty when \<open>s\<close> is empty or holds spaces and
  tabs only; and no read of \<open>trim\<close> falls outside \<open>s\<close>, since the model's result is
  never \<open>None\<close>, also for the empty string.
\<close>

theorem trim_removes_blanks:
  "trim s = Some (trim_spec s)
   \<and> ((\<forall>c\<in>set s. is_blank c) \<longrightarrow> trim s = Some [])
   \<and> trim [] = Some []"
  using trim_total [of s] trim_all_blank [of s] by (auto simp: trim_def)

theorem trim_removes_blanks_witness:
  "is_blank (CHR '' '') \<and> is_blank (CHR 0x09)
   \<and> trim [CHR '' '', CHR 0x09, CHR '' ''] = Some []
   \<and> trim_spec [CHR '' '', CHR 0x09, CHR '' ''] = []"
  using trim_removes_blanks [of "[CHR '' '', CHR 0x09, CHR '' '']"]
  by (auto simp: is_blank_def)

section \<open>Properties of the normalisation\<close>

lemma uncomment_total: "\<exists>r. uncomment t = Some r"
  by (cases t) (auto simp: uncomment_def char_at_def trim_total)

lemma reduce_total: "\<exists>r. Option.bind (trim l) uncomment = Some r"
  using uncomment_total [of "trim_spec l"] by (simp add: trim_total)

lemma find_eol_line:
  "CHR 0x0A \<notin> set l \<Longrightarrow>
   find_eol (pre @ l @ CHR 0x0A # rest) (length pre) = Some (length pre + length l)"
proof (induction l arbitrary: pre)
  case Nil
  show ?case by (subst find_eol.simps) (simp add: char_at_def)
next
  case (Cons c l)
  from Cons.prems have c: "c \<noteq> CHR 0x0A" and l: "CHR 0x0A \<notin> set l" by auto
  have "find_eol ((pre @ [c]) @ l @ CHR 0x0A # rest) (length (pre @ [c]))
        = Some (length (pre @ [c]) + length l)"
    by (rule Cons.IH [OF l])
  then have step: "find_eol (pre @ c # l @ CHR 0x0A # rest) (Suc (length pre))
        = Some (Suc (length pre + length l))" by simp
  show ?case
    by (subst find_eol.simps) (simp add: char_at_def c step nth_append)
qed

lemma remove_empty_lines_loop_lines:
  "\<forall>l\<in>set ls. CHR 0x0A \<notin> set l \<Longrightarrow>
   remove_empty_lines_loop (pre @ text_of_lines ls) (length pre) (length pre) ret
     = Some (ret @ text_of_lines (filter retained ls))"
proof (induction ls arbitrary: pre ret)
  case Nil
  show ?case by (subst remove_empty_lines_loop.simps) (simp add: text_of_lines_def)
next
  case (Cons l ls)
  from Cons.prems have l: "CHR 0x0A \<notin> set l" and ls: "\<forall>l\<in>set ls. CHR 0x0A \<notin> set l"
    by auto
  let ?data = "pre @ text_of_lines (l # ls)"
  have data: "?data = pre @ l @ CHR 0x0A # text_of_lines ls"
    by (simp add: text_of_lines_def)
  have data': "?data = (pre @ l @ [CHR 0x0A]) @ text_of_lines ls"
    by (simp add: text_of_lines_def)
  have eol: "find_eol ?data (length pre) = Some (length pre + length l)"
    unfolding data by (rule find_eol_line [OF l])
  have view: "sub_view ?data (length pre) (length l) = Some l"
    by (simp add: sub_view_def data)
  obtain r where r: "Option.bind (trim l) uncomment = Some r"
    using reduce_total by blast
  then have ret: "retained l = (r \<noteq> [])" by (simp add: retained_def)
  have IH: "remove_empty_lines_loop ?data (length pre + length l + 1)
              (length pre + length l + 1) ret'
            = Some (ret' @ text_of_lines (filter retained ls))" for ret'
    using Cons.IH [OF ls, of "pre @ l @ [CHR 0x0A]" ret'] unfolding data' by simp
  have ne: "length pre \<noteq> length ?data" "length pre + length l \<noteq> length ?data"
    by (simp_all add: data)
  show ?case
    apply (subst remove_empty_lines_loop.simps)
    apply (simp only: ne eol view r option.case if_True if_False not_False_eq_True
        add_diff_cancel_left' refl IH)
    apply (simp add: ret text_of_lines_def)
    done
qed

lemma remove_empty_lines_lines:
  "\<forall>l\<in>set ls. CHR 0x0A \<notin> set l \<Longrightarrow>
   remove_empty_lines (text_of_lines ls) = Some (text_of_lines (filter retained ls))"
  using remove_empty_lines_loop_lines [of ls "[]" "[]"]
  by (simp add: remove_empty_lines_def)

lemma retained_examples:
  "\<not> retained ''   ''" "\<not> retained '';''" "\<not> retained '';   ''"
  "retained ''G1 X1 ; move''" "retained ''; comment''"
  by (simp_all add: retained_def trim_total trim_spec_def is_blank_def uncomment_def char_at_def)

lemma fwrite_fits:
  "length line \<le> room f \<Longrightarrow>
   fwrite line f = f\<lparr>written := written f @ [line], room := room f - length line\<rparr>"
  by (simp add: fwrite_def)

lemma write_line_fits:
  "\<not> failed f \<Longrightarrow> length line \<le> room f \<Longrightarrow>
   write_line line f = (True, f\<lparr>written := written f @ [line], room := room f - length line\<rparr>)"
  by (simp add: write_line_def fwrite_def ferror_def)

lemma gcode_loop_step:
  assumes "btype hdr = GCode" "read_gcode B src fh hdr = (Success, raw, src1)"
    and "remove_empty_lines raw = Some out"
    and "(if out \<noteq> [] then write_line out dst else (True, dst)) = (True, dst1)"
  shows "gcode_loop B fh vc fs hdr src dst =
     (if ftell src1 = fs then Some (Inr (src1, dst1))
      else (case read_next_block_header B src1 fh vc of
              (res, hdr', src2) \<Rightarrow>
                if res \<noteq> Success then Some (Inl (Return res src2 dst1))
                else gcode_loop B fh vc fs hdr' src2 dst1))"
  by (subst gcode_loop.simps) (simp add: assms)

text \<open>
  Payloads whose every line is followed by a newline. There \<open>remove_empty_lines\<close>
  keeps exactly the lines that \<open>trim\<close> and then \<open>uncomment\<close> do not reduce to
  nothing, each as it stands and followed by a newline, and the GCode loop of
  \<open>from_binary_to_ascii\<close> writes that text and goes on (to the end of the loop at the
  end of the file, to the next header otherwise). The lines \<open>"   "\<close>, \<open>";"\<close> and
  \<open>";   "\<close> are dropped, \<open>"G1 X1 ; move"\<close> is kept.
\<close>

lemma gcode_lines_retained:
  "((\<forall>l\<in>set ls. CHR 0x0A \<notin> set l) \<longrightarrow>
      remove_empty_lines (text_of_lines ls) = Some (text_of_lines (filter retained ls))
      \<and> (btype hdr = GCode \<and> read_gcode B src fh hdr = (Success, text_of_lines ls, src1)
           \<and> \<not> failed dst \<and> length (text_of_lines (filter retained ls)) \<le> room dst \<longrightarrow>
          gcode_loop B fh vc fs hdr src dst =
            (if ftell src1 = fs
             then Some (Inr (src1, if filter retained ls = [] then dst
                                   else fwrite (text_of_lines (filter retained ls)) dst))
             else (case read_next_block_header B src1 fh vc of
                     (res, hdr', src2) \<Rightarrow>
                       if res \<noteq> Success
                       then Some (Inl (Return res src2
                              (if filter retained ls = [] then dst
                               else fwrite (text_of_lines (filter retained ls)) dst)))
                       else gcode_loop B fh vc fs hdr' src2
                              (if filter retained ls = [] then dst
                               else fwrite (text_of_lines (filter retained ls)) dst)))
          \<and> file_text (if filter retained ls = [] then dst
                          else fwrite (text_of_lines (filter retained ls)) dst)
              = file_text dst @ text_of_lines (filter retained ls)))
   \<and> \<not> retained ''   '' \<and> \<not> retained '';'' \<and> \<not> retained '';   ''
   \<and> retained ''G1 X1 ; move''"
proof -
  have part1: "remove_empty_lines (text_of_lines ls) = Some (text_of_lines (filter retained ls))"
    if "\<forall>l\<in>set ls. CHR 0x0A \<notin> set l"
    using that by (rule remove_empty_lines_lines)
  let ?out = "text_of_lines (filter retained ls)"
  let ?dst1 = "if filter retained ls = [] then dst else fwrite ?out dst"
  have out_empty: "(?out = []) = (filter retained ls = [])"
    by (cases "filter retained ls") (simp_all add: text_of_lines_def)
  have part2: "gcode_loop B fh vc fs hdr src dst =
            (if ftell src1 = fs then Some (Inr (src1, ?dst1))
             else (case read_next_block_header B src1 fh vc of
                     (res, hdr', src2) \<Rightarrow>
                       if res \<noteq> Success then Some (Inl (Return res src2 ?dst1))
                       else gcode_loop B fh vc fs hdr' src2 ?dst1))"
    if nl: "\<forall>l\<in>set ls. CHR 0x0A \<notin> set l"
      and h: "btype hdr = GCode" "read_gcode B src fh hdr = (Success, text_of_lines ls, src1)"
        "\<not> failed dst" "length ?out \<le> room dst"
  proof (rule gcode_loop_step [OF h(1) h(2) part1 [OF nl]])
    show "(if ?out \<noteq> [] then write_line ?out dst else (True, dst)) = (True, ?dst1)"
      using h(3,4) by (simp add: out_empty write_line_fits fwrite_fits)
  qed
  have part3: "file_text ?dst1 = file_text dst @ ?out" if "length ?out \<le> room dst"
    using that by (simp add: file_text_def fwrite_fits out_empty [symmetric])
  show ?thesis
    using part1 part2 part3 retained_examples by blast
qed

lemma gcode_lines_retained_example:
  "CHR 0x0A \<notin> set ''G1 X1 ; move'' \<and> CHR 0x0A \<notin> set '';   ''
   \<and> remove_empty_lines (text_of_lines [''G1 X1 ; move'', '';   ''])
       = Some (text_of_lines [''G1 X1 ; move''])
   \<and> gcode_loop spec_layer \<lparr>version = 1, checksum_type = 0\<rparr> True 3
         \<lparr>btype = GCode, payload_length = 1\<rparr>
         ((container_file
             [\<lparr>kind = GCode, payload = Text (text_of_lines [''G1 X1 ; move'', '';   ''])\<rparr>])
            \<lparr>position := 2\<rparr>)
         (empty_file 100)
       = Some (Inr ((container_file
             [\<lparr>kind = GCode, payload = Text (text_of_lines [''G1 X1 ; move'', '';   ''])\<rparr>])
            \<lparr>position := 3\<rparr>,
          fwrite (text_of_lines [''G1 X1 ; move'']) (empty_file 100)))"
  using gcode_lines_retained [of "[''G1 X1 ; move'', '';   '']"
      "\<lparr>btype = GCode, payload_length = 1\<rparr>" spec_layer
      "(container_file
             [\<lparr>kind = GCode, payload = Text (text_of_lines [''G1 X1 ; move'', '';   ''])\<rparr>])
            \<lparr>position := 2\<rparr>"
      "\<lparr>version = 1, checksum_type = 0\<rparr>"
      "(container_file
             [\<lparr>kind = GCode, payload = Text (text_of_lines [''G1 X1 ; move'', '';   ''])\<rparr>])
            \<lparr>position := 3\<rparr>"
      "empty_file 100" True 3]
  by (simp add: retained_examples spec_layer_def spec_read_gcode_def payload_at_def
      container_file_def advance_def empty_file_def ftell_def text_of_lines_def)

text \<open>
  Payloads whose last line has no newline after it. The inner loop stops at
  \<open>data.end()\<close>, the line is classified, and \<open>begin_it = ++end_it\<close> steps past the
  end of the string: \<open>remove_empty_lines\<close> has no defined result exactly on the
  non-empty payloads that do not end in a newline.
\<close>


lemma find_eol_end:
  "CHR 0x0A \<notin> set l \<Longrightarrow> find_eol (pre @ l) (length pre) = Some (length pre + length l)"
proof (induction l arbitrary: pre)
  case Nil
  show ?case by (subst find_eol.simps) simp
next
  case (Cons c l)
  from Cons.prems have c: "c \<noteq> CHR 0x0A" and l: "CHR 0x0A \<notin> set l" by auto
  have "find_eol ((pre @ [c]) @ l) (length (pre @ [c])) = Some (length (pre @ [c]) + length l)"
    by (rule Cons.IH [OF l])
  then have step: "find_eol (pre @ c # l) (Suc (length pre)) = Some (Suc (length pre + length l))"
    by simp
  show ?case
    by (subst find_eol.simps) (simp add: char_at_def c step nth_append)
qed

lemma remove_empty_lines_loop_unterminated:
  assumes "l \<noteq> []" "CHR 0x0A \<notin> set l"
  shows "remove_empty_lines_loop (pre @ l) (length pre) (length pre) ret = None"
proof -
  have eol: "find_eol (pre @ l) (length pre) = Some (length pre + length l)"
    by (rule find_eol_end [OF assms(2)])
  have view: "sub_view (pre @ l) (length pre) (length l) = Some l"
    by (simp add: sub_view_def)
  obtain r where r: "Option.bind (trim l) uncomment = Some r"
    using reduce_total by blast
  show ?thesis
    by (subst remove_empty_lines_loop.simps) (simp add: eol view r assms(1))
qed

lemma remove_empty_lines_loop_skip:
  "\<forall>l\<in>set ls. CHR 0x0A \<notin> set l \<Longrightarrow>
   remove_empty_lines_loop (pre @ text_of_lines ls @ rest) (length pre) (length pre) ret
     = remove_empty_lines_loop (pre @ text_of_lines ls @ rest)
         (length pre + length (text_of_lines ls)) (length pre + length (text_of_lines ls))
         (ret @ text_of_lines (filter retained ls))"
proof (induction ls arbitrary: pre ret)
  case Nil
  show ?case by (simp add: text_of_lines_def)
next
  case (Cons l ls)
  from Cons.prems have l: "CHR 0x0A \<notin> set l" and ls: "\<forall>l\<in>set ls. CHR 0x0A \<notin> set l"
    by auto
  let ?whole = "pre @ text_of_lines (l # ls) @ rest"
  have whole: "?whole = pre @ l @ CHR 0x0A # (text_of_lines ls @ rest)"
    by (simp add: text_of_lines_def)
  have whole': "?whole = (pre @ l @ [CHR 0x0A]) @ text_of_lines ls @ rest"
    by (simp add: text_of_lines_def)
  have eol: "find_eol ?whole (length pre) = Some (length pre + length l)"
    unfolding whole by (rule find_eol_line [OF l])
  have view: "sub_view ?whole (length pre) (length l) = Some l"
    by (simp add: sub_view_def whole)
  obtain r where r: "Option.bind (trim l) uncomment = Some r"
    using reduce_total by blast
  then have ret: "retained l = (r \<noteq> [])" by (simp add: retained_def)
  have len: "length pre + length (text_of_lines (l # ls))
             = length pre + length l + 1 + length (text_of_lines ls)"
    by (simp add: text_of_lines_def)
  have IH: "remove_empty_lines_loop ?whole (length pre + length l + 1)
              (length pre + length l + 1) ret'
            = remove_empty_lines_loop ?whole
                (length pre + length (text_of_lines (l # ls)))
                (length pre + length (text_of_lines (l # ls)))
                (ret' @ text_of_lines (filter retained ls))" for ret'
    using Cons.IH [OF ls, of "pre @ l @ [CHR 0x0A]" ret'] unfolding whole' len by simp
  have ne: "length pre \<noteq> length ?whole" "length pre + length l \<noteq> length ?whole"
    by (simp_all add: whole)
  show ?case
    apply (subst remove_empty_lines_loop.simps)
    apply (simp only: ne eol view r option.case if_True if_False not_False_eq_True
        add_diff_cancel_left' refl IH)
    apply (simp add: ret text_of_lines_def)
    done
qed

lemma payload_split:
  "\<exists>ls l. s = text_of_lines ls @ l \<and> (\<forall>x\<in>set ls. CHR 0x0A \<notin> set x) \<and> CHR 0x0A \<notin> set l"
proof (induction s)
  case Nil
  have "[] = text_of_lines [] @ []" by (simp add: text_of_lines_def)
  then show ?case by fastforce
next
  case (Cons c s)
  then obtain ls l where s: "s = text_of_lines ls @ l"
    and ls: "\<forall>x\<in>set ls. CHR 0x0A \<notin> set x" and l: "CHR 0x0A \<notin> set l" by blast
  show ?case
  proof (cases "c = CHR 0x0A")
    case True
    have "c # s = text_of_lines ([] # ls) @ l" using True s by (simp add: text_of_lines_def)
    moreover have "\<forall>x\<in>set ([] # ls). CHR 0x0A \<notin> set x" using ls by simp
    ultimately show ?thesis using l by blast
  next
    case False
    show ?thesis
    proof (cases ls)
      case Nil
      have "c # s = text_of_lines [] @ (c # l)" using s Nil by (simp add: text_of_lines_def)
      moreover have "CHR 0x0A \<notin> set (c # l)" using False l by simp
      moreover have "\<forall>x\<in>set ([] :: string list). CHR 0x0A \<notin> set x" by simp
      ultimately show ?thesis by blast
    next
      case (Cons x xs)
      have "c # s = text_of_lines ((c # x) # xs) @ l" using s Cons by (simp add: text_of_lines_def)
      moreover have "\<forall>y\<in>set ((c # x) # xs). CHR 0x0A \<notin> set y" using ls Cons False by simp
      ultimately show ?thesis using l by blast
    qed
  qed
qed

lemma text_of_lines_last:
  "ls \<noteq> [] \<Longrightarrow> text_of_lines ls \<noteq> [] \<and> last (text_of_lines ls) = CHR 0x0A"
proof (induction ls rule: rev_induct)
  case Nil
  then show ?case by simp
next
  case (snoc x xs)
  show ?case by (simp add: text_of_lines_def)
qed

lemma remove_empty_lines_undefined_iff:
  "(remove_empty_lines raw = None) = (raw \<noteq> [] \<and> last raw \<noteq> CHR 0x0A)"
proof -
  obtain ls l where d: "raw = text_of_lines ls @ l"
    and ls: "\<forall>x\<in>set ls. CHR 0x0A \<notin> set x" and l: "CHR 0x0A \<notin> set l"
    using payload_split by blast
  show ?thesis
  proof (cases "l = []")
    case True
    then have "remove_empty_lines raw = Some (text_of_lines (filter retained ls))"
      using remove_empty_lines_lines [OF ls] d by simp
    moreover have "raw = [] \<or> last raw = CHR 0x0A"
      using d True text_of_lines_last [of ls] by (cases ls) (simp_all add: text_of_lines_def)
    ultimately show ?thesis by auto
  next
    case False
    have "remove_empty_lines_loop ([] @ text_of_lines ls @ l) (length ([] :: string))
            (length ([] :: string)) []
          = remove_empty_lines_loop ([] @ text_of_lines ls @ l)
             (length ([] :: string) + length (text_of_lines ls))
             (length ([] :: string) + length (text_of_lines ls))
             ([] @ text_of_lines (filter retained ls))"
      by (rule remove_empty_lines_loop_skip [OF ls])
    also have "\<dots> = None"
      using remove_empty_lines_loop_unterminated [OF False l, of "text_of_lines ls"] by simp
    finally have "remove_empty_lines raw = None" by (simp add: remove_empty_lines_def d)
    moreover have "last l \<noteq> CHR 0x0A"
    proof
      assume "last l = CHR 0x0A"
      moreover have "last l \<in> set l" using False by simp
      ultimately show False using l by simp
    qed
    then have "raw \<noteq> [] \<and> last raw \<noteq> CHR 0x0A"
      using d False by simp
    ultimately show ?thesis by simp
  qed
qed

lemma gcode_loop_unterminated:
  assumes "btype hdr = GCode" "read_gcode B src fh hdr = (Success, raw, src1)"
    and "raw \<noteq> []" "last raw \<noteq> CHR 0x0A"
  shows "gcode_loop B fh vc fs hdr src dst = Some (Inl Undefined)"
proof -
  have "remove_empty_lines raw = None"
    using assms(3,4) by (simp add: remove_empty_lines_undefined_iff)
  then show ?thesis
    by (subst gcode_loop.simps) (simp add: assms(1,2))
qed

text \<open>
  Claim C2. For every GCode block converted by \<open>from_binary_to_ascii\<close>, each line of
  the payload is kept iff \<open>trim\<close> and then \<open>uncomment\<close> leave something of it, and
  every kept line is emitted as it stands, followed by a newline. The code does not do
  this for every payload. At the payload \<open>"G1 X0"\<close>, one line that is to be kept and
  that no newline follows, \<open>remove_empty_lines\<close> steps past the end of the string
  (line 172) after the inner loop has stopped at the end (line 162), so the lambda, the
  GCode loop (under either layer) and the whole conversion have no defined result and
  the line is never written; the same payload with the newline is converted to
  \<open>"G1 X0\n"\<close>. A payload of two lines of which only the first is terminated fails
  in the same way.
\<close>

theorem unterminated_last_line_undefined:
  "retained ''G1 X0''
   \<and> remove_empty_lines ''G1 X0'' = None
   \<and> remove_empty_lines ''G1 X0\<newline>'' = Some ''G1 X0\<newline>''
   \<and> remove_empty_lines ''G1 X0\<newline>G1 X1'' = None
   \<and> gcode_loop spec_layer header1 True 11 (header_of GCode)
        (at_offset unterminated_example 10) (empty_file 1000) = Some (Inl Undefined)
   \<and> gcode_loop seek_layer header1 True 11 (header_of GCode)
        (at_offset unterminated_example 10) (empty_file 1000) = Some (Inl Undefined)
   \<and> from_binary_to_ascii seek_layer (container_file unterminated_example)
        (empty_file 1000) True = Some Undefined"
  by code_simp

section \<open>Properties of the output file\<close>

lemma append_writes_simps [simp]:
  "written (append_writes L f) = written f @ L"
  "room (append_writes L f) = room f - length (concat L)"
  "failed (append_writes L f) = failed f"
  by (simp_all add: append_writes_def)

lemma append_writes_Nil [simp]: "append_writes [] f = f"
  by (simp add: append_writes_def)

lemma append_writes_append:
  "append_writes L2 (append_writes L1 f) = append_writes (L1 @ L2) f"
  by (simp add: append_writes_def)

lemma write_line_append:
  "\<not> failed f \<Longrightarrow> length line \<le> room f \<Longrightarrow>
   write_line line f = (True, append_writes [line] f)"
  by (simp add: write_line_def fwrite_def ferror_def append_writes_def)

lemma write_metadata_append:
  "\<not> failed f \<Longrightarrow> length (concat (map metadata_line items)) \<le> room f \<Longrightarrow>
   write_metadata items f = (True, append_writes (map metadata_line items) f)"
proof (induction items arbitrary: f)
  case Nil
  then show ?case by (simp add: ferror_def)
next
  case (Cons item items)
  from Cons.prems have fit: "length (metadata_line item) \<le> room f" by simp
  have "write_metadata items (append_writes [metadata_line item] f)
        = (True, append_writes (map metadata_line items) (append_writes [metadata_line item] f))"
    using Cons.prems by (intro Cons.IH) simp_all
  then show ?case
    using Cons.prems(1) fit by (simp add: write_line_append append_writes_append)
qed

lemma rows_of_concat: "concat (rows_of encoded) = encoded"
proof (induction encoded rule: rows_of.induct)
  case (1 encoded)
  then show ?case by (subst rows_of.simps) simp
qed

lemma rows_of_bounds:
  "row \<in> set (rows_of encoded) \<Longrightarrow>
   0 < length row \<and> length row \<le> max_row_length \<and> set row \<subseteq> set encoded"
proof (induction encoded rule: rows_of.induct)
  case (1 encoded)
  show ?case
  proof (cases "length encoded > max_row_length")
    case True
    with "1.prems" have "row = take max_row_length encoded
        \<or> row \<in> set (rows_of (drop max_row_length encoded))"
      by (subst (asm) rows_of.simps) simp
    then show ?thesis
    proof
      assume "row = take max_row_length encoded"
      with True show ?thesis
        by (auto simp: max_row_length_def dest: in_set_takeD)
    next
      assume "row \<in> set (rows_of (drop max_row_length encoded))"
      from "1.IH" [OF True this] show ?thesis
        by (auto dest: in_set_dropD)
    qed
  next
    case False
    with "1.prems" show ?thesis
      by (subst (asm) rows_of.simps) (auto split: if_splits)
  qed
qed

lemma strip_body_line [simp]: "strip_body_line (body_line row) = row"
  by (simp add: strip_body_line_def body_line_def)

lemma strip_body_lines: "map strip_body_line (map body_line rows) = rows"
  by (induction rows) simp_all

lemma write_rows_append:
  "\<not> failed f \<Longrightarrow> length (concat (map body_line (rows_of encoded))) \<le> room f \<Longrightarrow>
   write_rows encoded f = (True, append_writes (map body_line (rows_of encoded)) f)"
proof (induction encoded arbitrary: f rule: rows_of.induct)
  case (1 encoded)
  show ?case
  proof (cases "length encoded > max_row_length")
    case True
    let ?line = "body_line (take max_row_length encoded)"
    have rows: "rows_of encoded = take max_row_length encoded # rows_of (drop max_row_length encoded)"
      using True by (subst rows_of.simps) simp
    from "1.prems" have fit: "length ?line \<le> room f" by (simp add: rows)
    have wl: "write_line ?line f = (True, append_writes [?line] f)"
      by (rule write_line_append [OF "1.prems"(1) fit])
    have "write_rows (drop max_row_length encoded) (append_writes [?line] f)
          = (True, append_writes (map body_line (rows_of (drop max_row_length encoded)))
                     (append_writes [?line] f))"
      using "1.prems" by (intro "1.IH" [OF True]) (simp_all add: rows)
    then show ?thesis
      using True by (subst write_rows.simps) (simp add: wl rows append_writes_append)
  next
    case False
    show ?thesis
    proof (cases "length encoded > 0")
      case True
      have rows: "rows_of encoded = [encoded]"
        using True False by (subst rows_of.simps) simp
      from "1.prems" have fit: "length (body_line encoded) \<le> room f" by (simp add: rows)
      show ?thesis
        using True False write_line_append [OF "1.prems"(1) fit]
        by (subst write_rows.simps) (simp add: rows)
    next
      case F: False
      then have "rows_of encoded = []" by (subst rows_of.simps) simp
      with F show ?thesis by (subst write_rows.simps) simp
    qed
  qed
qed

lemma write_thumbnail_append:
  assumes "\<not> failed f" "length (concat (framing t)) \<le> room f"
  shows "write_thumbnail t f = (True, append_writes (framing t) f)"
proof -
  let ?enc = "base64_encode (data t)"
  let ?b = "begin_line t ?enc"
  let ?body = "map body_line (rows_of ?enc)"
  from assms(2) have fit1: "length ?b \<le> room f" by (simp add: framing_def)
  have w1: "write_line ?b f = (True, append_writes [?b] f)"
    by (rule write_line_append [OF assms(1) fit1])
  have "write_rows ?enc (append_writes [?b] f)
            = (True, append_writes ?body (append_writes [?b] f))"
    using assms by (intro write_rows_append) (simp_all add: framing_def)
  then have w2: "write_rows ?enc (append_writes [?b] f) = (True, append_writes (?b # ?body) f)"
    by (simp add: append_writes_append)
  have "write_line (end_line t) (append_writes (?b # ?body) f)
            = (True, append_writes [end_line t] (append_writes (?b # ?body) f))"
    using assms by (intro write_line_append) (simp_all add: framing_def)
  then have w3: "write_line (end_line t) (append_writes (?b # ?body) f)
            = (True, append_writes (framing t) f)"
    by (simp add: append_writes_append framing_def)
  show ?thesis
    by (simp add: write_thumbnail_def Let_def w1 w2 w3)
qed

section \<open>Properties of base-64\<close>

lemma index_of_nth:
  "distinct xs \<Longrightarrow> n < length xs \<Longrightarrow> index_of xs (xs ! n) = Some n"
proof (induction xs arbitrary: n)
  case Nil
  then show ?case by simp
next
  case (Cons x xs)
  show ?case
  proof (cases n)
    case 0
    then show ?thesis by simp
  next
    case (Suc m)
    with Cons.prems have "m < length xs" "distinct xs" "xs ! m \<noteq> x"
      by (auto simp: nth_mem)
    with Cons.IH [of m] Suc show ?thesis by auto
  qed
qed

lemma length_base64_alphabet: "length base64_alphabet = 64"
  by (simp add: base64_alphabet_def)

lemma distinct_base64_alphabet: "distinct base64_alphabet"
  by (simp add: base64_alphabet_def)

lemma pad_not_in_alphabet: "CHR ''='' \<notin> set base64_alphabet"
  by (simp add: base64_alphabet_def)

lemma base64_char_mem: "n < 64 \<Longrightarrow> base64_char n \<in> set base64_alphabet"
  by (simp add: base64_char_def length_base64_alphabet)

lemma base64_char_not_pad: "n < 64 \<Longrightarrow> base64_char n \<noteq> CHR ''=''"
  using base64_char_mem pad_not_in_alphabet by metis

lemma base64_index_char: "n < 64 \<Longrightarrow> base64_index (base64_char n) = Some n"
  unfolding base64_index_def base64_char_def
  by (rule index_of_nth [OF distinct_base64_alphabet]) (simp add: length_base64_alphabet)


lemma split_div: "x < n \<Longrightarrow> (q * n + x) div n = (q::nat)"
  by simp

lemma split_mod: "x < n \<Longrightarrow> (q * n + x) mod n = (x::nat)"
  by simp

lemma regroup:
  fixes a b c :: nat
  assumes "a < 256" "b < 256" "c < 256"
  shows "a div 4 * 4 + (a mod 4 * 16 + b div 16) div 16 = a"
    "(a mod 4 * 16 + b div 16) mod 16 * 16 + (b mod 16 * 4 + c div 64) div 4 = b"
    "(b mod 16 * 4 + c div 64) mod 4 * 64 + c mod 64 = c"
    "(a mod 4 * 16 + b div 16) mod 16 * 16 + (b mod 16 * 4) div 4 = b"
    "a div 4 * 4 + (a mod 4 * 16) div 16 = a"
proof -
  have b16: "b div 16 < 16" using assms(2) by simp
  have c64: "c div 64 < 4" using assms(3) by simp
  have e1: "(a mod 4 * 16 + b div 16) div 16 = a mod 4" by (rule split_div [OF b16])
  have e2: "(a mod 4 * 16 + b div 16) mod 16 = b div 16" by (rule split_mod [OF b16])
  have e3: "(b mod 16 * 4 + c div 64) div 4 = b mod 16" by (rule split_div [OF c64])
  have e4: "(b mod 16 * 4 + c div 64) mod 4 = c div 64" by (rule split_mod [OF c64])
  have e5: "(b mod 16 * 4) div 4 = b mod 16" by simp
  have e6: "(a mod 4 * 16) div 16 = a mod 4" by simp
  show "a div 4 * 4 + (a mod 4 * 16 + b div 16) div 16 = a"
    by (simp only: e1 div_mult_mod_eq)
  show "(a mod 4 * 16 + b div 16) mod 16 * 16 + (b mod 16 * 4 + c div 64) div 4 = b"
    by (simp only: e2 e3 div_mult_mod_eq)
  show "(b mod 16 * 4 + c div 64) mod 4 * 64 + c mod 64 = c"
    by (simp only: e4 div_mult_mod_eq)
  show "(a mod 4 * 16 + b div 16) mod 16 * 16 + (b mod 16 * 4) div 4 = b"
    by (simp only: e2 e5 div_mult_mod_eq)
  show "a div 4 * 4 + (a mod 4 * 16) div 16 = a"
    by (simp only: e6 div_mult_mod_eq)
qed

lemma unat_byte: "unat (a :: byte) < 256"
  using unsigned_less [of a, where ?'a = nat] by simp

lemma sextets:
  fixes a b c :: nat
  assumes "a < 256" "b < 256" "c < 256"
  shows "a div 4 < 64" "a mod 4 * 16 + b div 16 < 64" "b mod 16 * 4 + c div 64 < 64"
    "c mod 64 < 64" "b mod 16 * 4 < 64" "a mod 4 * 16 < 64"
  using assms by arith+

lemma decode_quad:
  assumes "s0 < 64" "s1 < 64" "s2 < 64" "s3 < 64"
  shows "base64_decode (base64_char s0 # base64_char s1 # base64_char s2 # base64_char s3 # rest)
    = map_option (\<lambda>bs. of_nat (s0 * 4 + s1 div 16) # of_nat (s1 mod 16 * 16 + s2 div 4)
                        # of_nat (s2 mod 4 * 64 + s3) # bs) (base64_decode rest)"
  using assms
  by (simp add: base64_index_char base64_char_not_pad del: of_nat_add of_nat_mult)

lemma decode_pad1:
  assumes "s0 < 64" "s1 < 64" "s2 < 64"
  shows "base64_decode [base64_char s0, base64_char s1, base64_char s2, CHR ''='']
    = Some [of_nat (s0 * 4 + s1 div 16), of_nat (s1 mod 16 * 16 + s2 div 4)]"
  using assms
  by (simp add: base64_index_char base64_char_not_pad del: of_nat_add of_nat_mult)

lemma decode_pad2:
  assumes "s0 < 64" "s1 < 64"
  shows "base64_decode [base64_char s0, base64_char s1, CHR ''='', CHR ''='']
    = Some [of_nat (s0 * 4 + s1 div 16)]"
  using assms
  by (simp add: base64_index_char base64_char_not_pad del: of_nat_add of_nat_mult)

lemma base64_round_trip: "base64_decode (base64_encode bs) = Some bs"
proof (induction bs rule: base64_encode.induct)
  case (1 a b c rest)
  note s = sextets [OF unat_byte [of a] unat_byte [of b] unat_byte [of c]]
  note r = regroup [OF unat_byte [of a] unat_byte [of b] unat_byte [of c]]
  have "base64_decode (base64_encode (a # b # c # rest))
        = map_option (\<lambda>bs. of_nat (unat a div 4 * 4 + (unat a mod 4 * 16 + unat b div 16) div 16)
            # of_nat ((unat a mod 4 * 16 + unat b div 16) mod 16 * 16
                      + (unat b mod 16 * 4 + unat c div 64) div 4)
            # of_nat ((unat b mod 16 * 4 + unat c div 64) mod 4 * 64 + unat c mod 64) # bs)
          (base64_decode (base64_encode rest))"
    unfolding base64_encode.simps append_Cons append_Nil
    by (rule decode_quad [OF s(1) s(2) s(3) s(4)])
  also have "\<dots> = Some (a # b # c # rest)"
    unfolding r "1.IH" by simp
  finally show ?case .
next
  case (2 a b)
  note s = sextets [OF unat_byte [of a] unat_byte [of b] unat_byte [of b]]
  note r = regroup [OF unat_byte [of a] unat_byte [of b] unat_byte [of b]]
  have "base64_decode (base64_encode [a, b])
        = Some [of_nat (unat a div 4 * 4 + (unat a mod 4 * 16 + unat b div 16) div 16),
                of_nat ((unat a mod 4 * 16 + unat b div 16) mod 16 * 16
                      + (unat b mod 16 * 4) div 4)]"
    unfolding base64_encode.simps
    by (rule decode_pad1 [OF s(1) s(2) s(5)])
  also have "\<dots> = Some [a, b]"
    unfolding r by simp
  finally show ?case .
next
  case (3 a)
  note s = sextets [OF unat_byte [of a] unat_byte [of a] unat_byte [of a]]
  note r = regroup [OF unat_byte [of a] unat_byte [of a] unat_byte [of a]]
  have "base64_decode (base64_encode [a])
        = Some [of_nat (unat a div 4 * 4 + (unat a mod 4 * 16) div 16)]"
    unfolding base64_encode.simps
    by (rule decode_pad2 [OF s(1) s(6)])
  also have "\<dots> = Some [a]"
    unfolding r by simp
  finally show ?case .
next
  case 4
  show ?case by simp
qed

lemma base64_encode_chars:
  "set (base64_encode bs) \<subseteq> set base64_alphabet \<union> {CHR ''=''}"
proof (induction bs rule: base64_encode.induct)
  case (1 a b c rest)
  note s = sextets [OF unat_byte [of a] unat_byte [of b] unat_byte [of c]]
  show ?case using "1.IH" by (simp add: base64_char_mem s)
next
  case (2 a b)
  note s = sextets [OF unat_byte [of a] unat_byte [of b] unat_byte [of b]]
  show ?case by (simp add: base64_char_mem s)
next
  case (3 a)
  note s = sextets [OF unat_byte [of a] unat_byte [of a] unat_byte [of a]]
  show ?case by (simp add: base64_char_mem s)
next
  case 4
  show ?case by simp
qed

section \<open>The thumbnail framing\<close>

lemma framing_empty: "data t = [] \<Longrightarrow> framing t = [begin_line t [], end_line t]"
  by (simp add: framing_def rows_of.simps)

text \<open>
  Claim C5. Every body line that the source writes for a thumbnail is the comment marker,
  one space and at most 78 characters of base-64 text; the body lines without their
  \<open>"; "\<close> and their newline, put together in order, are the base-64 encoding of
  the image, and decoding that text gives the bytes of the image back; an image of no
  bytes has no body line between its begin and end lines. The writes of
  \<open>write_thumbnail\<close> are the begin line, these body lines and the end line.
\<close>

theorem thumbnail_body_round_trip:
  "(\<forall>line\<in>set (map body_line (rows_of (base64_encode (data t)))).
      \<exists>row. line = ''; '' @ row @ [CHR 0x0A] \<and> length row \<le> 78
            \<and> set row \<subseteq> set base64_alphabet \<union> {CHR ''=''})
   \<and> concat (map strip_body_line (map body_line (rows_of (base64_encode (data t)))))
       = base64_encode (data t)
   \<and> base64_decode
         (concat (map strip_body_line (map body_line (rows_of (base64_encode (data t))))))
       = Some (data t)
   \<and> (data t = [] \<longrightarrow> framing t = [begin_line t [], end_line t])
   \<and> (\<not> failed f \<and> length (concat (framing t)) \<le> room f \<longrightarrow>
        write_thumbnail t f = (True, append_writes (framing t) f)
        \<and> framing t = begin_line t (base64_encode (data t))
              # map body_line (rows_of (base64_encode (data t))) @ [end_line t])"
proof -
  let ?enc = "base64_encode (data t)"
  have lines: "\<exists>row. line = ''; '' @ row @ [CHR 0x0A] \<and> length row \<le> 78
            \<and> set row \<subseteq> set base64_alphabet \<union> {CHR ''=''}"
    if "line \<in> set (map body_line (rows_of ?enc))" for line
  proof -
    from that obtain row where row: "row \<in> set (rows_of ?enc)" "line = body_line row"
      by auto
    from rows_of_bounds [OF row(1)] base64_encode_chars [of "data t"]
    have "length row \<le> 78" "set row \<subseteq> set base64_alphabet \<union> {CHR ''=''}"
      by (auto simp: max_row_length_def)
    with row(2) show ?thesis by (auto simp: body_line_def)
  qed
  have cat: "concat (map strip_body_line (map body_line (rows_of ?enc))) = ?enc"
    by (simp only: strip_body_lines rows_of_concat)
  have dec: "base64_decode (concat (map strip_body_line (map body_line (rows_of ?enc))))
             = Some (data t)"
    by (simp only: cat base64_round_trip)
  show ?thesis
    using lines cat dec framing_empty [of t] write_thumbnail_append [of f t]
    by (simp add: framing_def)
qed

lemma example_framing_text:
  "concat (framing \<lparr>format = PNG, width = 16, height = 16, data = [77, 97, 110, 33]\<rparr>)
   = [CHR 0x0A] @ '';'' @ [CHR 0x0A] @ ''; thumbnail begin 16x16 8'' @ [CHR 0x0A]
         @ ''; TWFuIQ=='' @ [CHR 0x0A] @ ''; thumbnail end'' @ [CHR 0x0A] @ '';'' @ [CHR 0x0A]"
  by code_simp

lemma example_decode: "base64_decode ''TWFuIQ=='' = Some [77, 97, 110, 33]"
  by code_simp

theorem thumbnail_body_round_trip_witness:
  "\<not> failed (empty_file 200)
   \<and> length (concat (framing \<lparr>format = PNG, width = 16, height = 16,
                                 data = [77, 97, 110, 33]\<rparr>)) \<le> room (empty_file 200)
   \<and> file_text (snd (write_thumbnail
          \<lparr>format = PNG, width = 16, height = 16, data = [77, 97, 110, 33]\<rparr> (empty_file 200)))
       = [CHR 0x0A] @ '';'' @ [CHR 0x0A] @ ''; thumbnail begin 16x16 8'' @ [CHR 0x0A]
         @ ''; TWFuIQ=='' @ [CHR 0x0A] @ ''; thumbnail end'' @ [CHR 0x0A] @ '';'' @ [CHR 0x0A]
   \<and> base64_decode ''TWFuIQ=='' = Some [77, 97, 110, 33]
   \<and> framing \<lparr>format = JPG, width = 1, height = 1, data = []\<rparr>
       = [begin_line \<lparr>format = JPG, width = 1, height = 1, data = []\<rparr> [],
          end_line \<lparr>format = JPG, width = 1, height = 1, data = []\<rparr>]"
proof -
  let ?t = "\<lparr>format = PNG, width = 16, height = 16, data = [77, 97, 110, 33]\<rparr>"
  have room: "\<not> failed (empty_file 200)" "length (concat (framing ?t)) \<le> room (empty_file 200)"
    by (simp_all add: example_framing_text empty_file_def)
  from thumbnail_body_round_trip [of ?t "empty_file 200"] room
  have w: "write_thumbnail ?t (empty_file 200) = (True, append_writes (framing ?t) (empty_file 200))"
    by blast
  have ft: "file_text (snd (write_thumbnail ?t (empty_file 200))) = concat (framing ?t)"
    unfolding w by (simp add: file_text_def empty_file_def)
  from thumbnail_body_round_trip
          [of "\<lparr>format = JPG, width = 1, height = 1, data = []\<rparr>" "empty_file 200"]
  have e: "framing \<lparr>format = JPG, width = 1, height = 1, data = []\<rparr>
       = [begin_line \<lparr>format = JPG, width = 1, height = 1, data = []\<rparr> [],
          end_line \<lparr>format = JPG, width = 1, height = 1, data = []\<rparr>]"
    by simp
  show ?thesis
    using room ft e example_decode by (simp only: example_framing_text simp_thms)
qed


section \<open>Properties of the conversion\<close>

lemma from_binary_to_ascii_blocks:
  "is_valid_binary_gcode B src True = (Success, s) \<Longrightarrow>
   read_header B (rewind (fseek_end s)) = (Success, fh, s0) \<Longrightarrow>
   from_binary_to_ascii B src dst vc = convert_blocks B fh vc (file_length s) s0 dst"
  by (simp add: from_binary_to_ascii_def Let_def ftell_def fseek_end_def)

lemma thumbnails_loop_run:
  "read_thumbnails B fh vc ts r hdr src = Some (r', hdr', src') \<Longrightarrow>
   \<not> failed dst \<Longrightarrow> length (concat (concat (map framing ts))) \<le> room dst \<Longrightarrow>
   thumbnails_loop B fh vc r hdr src dst
     = Some (Inr (r', hdr', src', append_writes (concat (map framing ts)) dst))"
proof (induction ts arbitrary: r hdr src dst)
  case Nil
  then show ?case
    by (subst thumbnails_loop.simps) (simp split: if_splits)
next
  case (Cons t ts)
  from Cons.prems(1) have ty: "btype hdr = Thumbnail"
    by (simp split: if_splits)
  obtain res t' src1 where rd: "read_thumbnail B src fh hdr = (res, t', src1)"
    by (cases "read_thumbnail B src fh hdr") auto
  with Cons.prems(1) ty have ok: "res = Success" "t' = t"
    by (simp_all split: if_splits)
  obtain res2 hdr2 src2 where nx: "read_next_block_header B src1 fh vc = (res2, hdr2, src2)"
    by (cases "read_next_block_header B src1 fh vc") auto
  with Cons.prems(1) ty rd ok have ok2: "res2 = Success"
    and rest: "read_thumbnails B fh vc ts (ftell src1) hdr2 src2 = Some (r', hdr', src')"
    by (simp_all split: if_splits)
  from Cons.prems(3) have fit: "length (concat (framing t)) \<le> room dst" by simp
  have wt: "write_thumbnail t dst = (True, append_writes (framing t) dst)"
    by (rule write_thumbnail_append [OF Cons.prems(2) fit])
  have "thumbnails_loop B fh vc (ftell src1) hdr2 src2 (append_writes (framing t) dst)
        = Some (Inr (r', hdr', src',
            append_writes (concat (map framing ts)) (append_writes (framing t) dst)))"
    using Cons.prems(2,3) by (intro Cons.IH [OF rest]) simp_all
  then show ?case
    by (subst thumbnails_loop.simps) (simp add: ty rd ok nx ok2 wt append_writes_append)
qed

lemma thumbnails_loop_offset:
  assumes "thumbnails_loop B fh vc r0 hdr0 src0 dst0 = Some y"
  shows "\<forall>r hdr src dst. y = Inr (r, hdr, src, dst) \<longrightarrow>
           btype hdr \<noteq> Thumbnail
           \<and> ((r, hdr, src) = (r0, hdr0, src0)
                \<or> (\<exists>pre. r = ftell pre
                      \<and> read_next_block_header B pre fh vc = (Success, hdr, src)))"
  using assms
proof (induction B fh vc r0 hdr0 src0 dst0 y
    rule: thumbnails_loop.raw_induct [rotated 1, consumes 1])
  case (1 loop B fh vc r0 hdr0 src0 dst0 y)
  show ?case
  proof (cases "btype hdr0 = Thumbnail")
    case False
    with "1.hyps" show ?thesis by auto
  next
    case True
    obtain res t src1 where rd: "read_thumbnail B src0 fh hdr0 = (res, t, src1)"
      by (cases "read_thumbnail B src0 fh hdr0") auto
    obtain ok dst1 where wt: "write_thumbnail t dst0 = (ok, dst1)"
      by (cases "write_thumbnail t dst0") auto
    obtain res2 hdr2 src2 where nx: "read_next_block_header B src1 fh vc = (res2, hdr2, src2)"
      by (cases "read_next_block_header B src1 fh vc") auto
    show ?thesis
    proof (intro allI impI)
      fix r hdr src dst
      assume y: "y = Inr (r, hdr, src, dst)"
      with "1.hyps" True rd wt nx have ok: "res = Success" "ok" "res2 = Success"
        and rec: "loop B fh vc (ftell src1) hdr2 src2 dst1 = Some y"
        by (auto split: if_splits)
      from "1.IH" [OF rec] y
      have "btype hdr \<noteq> Thumbnail"
        and "(r, hdr, src) = (ftell src1, hdr2, src2)
             \<or> (\<exists>pre. r = ftell pre
                   \<and> read_next_block_header B pre fh vc = (Success, hdr, src))"
        by blast+
      with nx ok(3)
      show "btype hdr \<noteq> Thumbnail
            \<and> ((r, hdr, src) = (r0, hdr0, src0)
                \<or> (\<exists>pre. r = ftell pre
                      \<and> read_next_block_header B pre fh vc = (Success, hdr, src)))"
        by auto
    qed
  qed
qed

lemma convert_thumbnails_offset:
  assumes "convert_thumbnails B fh vc s d = Some (Inr (r, hdr, s', d'))"
  shows "btype hdr \<noteq> Thumbnail
         \<and> (\<exists>pre. r = ftell pre \<and> read_next_block_header B pre fh vc = (Success, hdr, s'))"
proof -
  obtain res hdr0 s1 where nx: "read_next_block_header B s fh vc = (res, hdr0, s1)"
    by (cases "read_next_block_header B s fh vc") auto
  with assms have ok: "res = Success"
    and lp: "thumbnails_loop B fh vc (ftell s) hdr0 s1 d = Some (Inr (r, hdr, s', d'))"
    by (auto simp: convert_thumbnails_def Let_def split: if_splits)
  from thumbnails_loop_offset [OF lp] nx ok show ?thesis by auto
qed

lemma from_gcode_cont:
  "convert_gcode B fh vc fs hdr s d = Some (Inr (s', d')) \<Longrightarrow>
   from_gcode B fh vc fs r hdr s d = Some (finish_metadata B fh vc r s' d')"
  by (simp add: from_gcode_def)

lemma from_thumbnails_cont:
  "convert_thumbnails B fh vc s d = Some (Inr (r, hdr, s', d')) \<Longrightarrow>
   from_thumbnails B fh vc fs s d = from_gcode B fh vc fs r hdr s' d'"
  by (simp add: from_thumbnails_def)

lemma from_printer_metadata_cont:
  "convert_printer_metadata B fh vc s d = Inr (s', d') \<Longrightarrow>
   from_printer_metadata B fh vc fs s d = from_thumbnails B fh vc fs s' d'"
  by (simp add: from_printer_metadata_def)

lemma convert_blocks_cont:
  "convert_file_metadata B fh vc s d = Inr (s', d') \<Longrightarrow>
   convert_blocks B fh vc fs s d = from_printer_metadata B fh vc fs s' d'"
  by (simp add: convert_blocks_def)

lemma finish_metadata_cont:
  "convert_print_metadata B fh vc r s d = Inr (s', d') \<Longrightarrow>
   finish_metadata B fh vc r s d = convert_slicer_metadata B fh vc s' d'"
  by (simp add: finish_metadata_def)


text \<open>
  Claim C3. At each of the four places where \<open>from_binary_to_ascii\<close> requires a block
  type (file metadata, printer metadata, print metadata, slicer metadata), a header read
  that succeeds with another type makes the call return \<open>InvalidSequenceOfBlocks\<close>
  at once: the files it leaves are the source as the header read left it and the output
  as it was before that read, so nothing more is read, decoded or written.
\<close>

theorem wrong_block_type_stops:
  "is_valid_binary_gcode B src True = (Success, s)
   \<and> read_header B (rewind (fseek_end s)) = (Success, fh, s0) \<longrightarrow>
   (read_next_block_header B s0 fh vc = (Success, hdr, s1) \<and> btype hdr \<noteq> FileMetadata \<longrightarrow>
      from_binary_to_ascii B src dst vc = Some (Return InvalidSequenceOfBlocks s1 dst))
   \<and> (convert_file_metadata B fh vc s0 dst = Inr (s2, d2) \<longrightarrow>
      (read_next_block_header B s2 fh vc = (Success, hdr, s3)
         \<and> btype hdr \<noteq> PrinterMetadata \<longrightarrow>
         from_binary_to_ascii B src dst vc = Some (Return InvalidSequenceOfBlocks s3 d2))
      \<and> (convert_printer_metadata B fh vc s2 d2 = Inr (s4, d4)
           \<and> convert_thumbnails B fh vc s4 d4 = Some (Inr (r, h, s5, d5))
           \<and> convert_gcode B fh vc (file_length s) h s5 d5 = Some (Inr (s6, d6)) \<longrightarrow>
           (read_next_block_header B (fseek_set s6 r) fh vc = (Success, hdr, s7)
              \<and> btype hdr \<noteq> PrintMetadata \<longrightarrow>
              from_binary_to_ascii B src dst vc = Some (Return InvalidSequenceOfBlocks s7 d6))
           \<and> (convert_print_metadata B fh vc r s6 d6 = Inr (s8, d8)
                \<and> read_next_block_header B s8 fh vc = (Success, hdr, s9)
                \<and> btype hdr \<noteq> SlicerMetadata \<longrightarrow>
                from_binary_to_ascii B src dst vc
                  = Some (Return InvalidSequenceOfBlocks s9 d8))))"
proof (intro impI, elim conjE)
  assume v: "is_valid_binary_gcode B src True = (Success, s)"
    and h: "read_header B (rewind (fseek_end s)) = (Success, fh, s0)"
  note start = from_binary_to_ascii_blocks [OF v h, of dst vc]
  have p1: "from_binary_to_ascii B src dst vc = Some (Return InvalidSequenceOfBlocks s1 dst)"
    if "read_next_block_header B s0 fh vc = (Success, hdr, s1)" "btype hdr \<noteq> FileMetadata"
    using that by (simp add: start convert_blocks_def convert_file_metadata_def)
  have p2: "from_binary_to_ascii B src dst vc = Some (Return InvalidSequenceOfBlocks s3 d2)"
    if "convert_file_metadata B fh vc s0 dst = Inr (s2, d2)"
      "read_next_block_header B s2 fh vc = (Success, hdr, s3)" "btype hdr \<noteq> PrinterMetadata"
    using that
    by (simp add: start convert_blocks_cont from_printer_metadata_def
        convert_printer_metadata_def)
  have upto: "from_binary_to_ascii B src dst vc = Some (finish_metadata B fh vc r s6 d6)"
    if "convert_file_metadata B fh vc s0 dst = Inr (s2, d2)"
      "convert_printer_metadata B fh vc s2 d2 = Inr (s4, d4)"
      "convert_thumbnails B fh vc s4 d4 = Some (Inr (r, h, s5, d5))"
      "convert_gcode B fh vc (file_length s) h s5 d5 = Some (Inr (s6, d6))"
    using that
    by (simp add: start convert_blocks_cont from_printer_metadata_cont from_thumbnails_cont
        from_gcode_cont)
  have p3: "finish_metadata B fh vc r s6 d6 = Return InvalidSequenceOfBlocks s7 d6"
    if "read_next_block_header B (fseek_set s6 r) fh vc = (Success, hdr, s7)"
      "btype hdr \<noteq> PrintMetadata"
    using that by (simp add: finish_metadata_def convert_print_metadata_def)
  have p4: "finish_metadata B fh vc r s6 d6 = Return InvalidSequenceOfBlocks s9 d8"
    if "convert_print_metadata B fh vc r s6 d6 = Inr (s8, d8)"
      "read_next_block_header B s8 fh vc = (Success, hdr, s9)" "btype hdr \<noteq> SlicerMetadata"
    using that by (simp add: finish_metadata_cont convert_slicer_metadata_def)
  show "(read_next_block_header B s0 fh vc = (Success, hdr, s1) \<and> btype hdr \<noteq> FileMetadata \<longrightarrow>
      from_binary_to_ascii B src dst vc = Some (Return InvalidSequenceOfBlocks s1 dst))
   \<and> (convert_file_metadata B fh vc s0 dst = Inr (s2, d2) \<longrightarrow>
      (read_next_block_header B s2 fh vc = (Success, hdr, s3)
         \<and> btype hdr \<noteq> PrinterMetadata \<longrightarrow>
         from_binary_to_ascii B src dst vc = Some (Return InvalidSequenceOfBlocks s3 d2))
      \<and> (convert_printer_metadata B fh vc s2 d2 = Inr (s4, d4)
           \<and> convert_thumbnails B fh vc s4 d4 = Some (Inr (r, h, s5, d5))
           \<and> convert_gcode B fh vc (file_length s) h s5 d5 = Some (Inr (s6, d6)) \<longrightarrow>
           (read_next_block_header B (fseek_set s6 r) fh vc = (Success, hdr, s7)
              \<and> btype hdr \<noteq> PrintMetadata \<longrightarrow>
              from_binary_to_ascii B src dst vc = Some (Return InvalidSequenceOfBlocks s7 d6))
           \<and> (convert_print_metadata B fh vc r s6 d6 = Inr (s8, d8)
                \<and> read_next_block_header B s8 fh vc = (Success, hdr, s9)
                \<and> btype hdr \<noteq> SlicerMetadata \<longrightarrow>
                from_binary_to_ascii B src dst vc
                  = Some (Return InvalidSequenceOfBlocks s9 d8))))"
    using p1 p2 p3 p4 upto by metis
qed

theorem wrong_block_type_stops_witness:
  "from_binary_to_ascii spec_layer (container_file wrong_first) (empty_file 100) True
     = Some (Return InvalidSequenceOfBlocks (at_offset wrong_first 2) (empty_file 100))
   \<and> from_binary_to_ascii spec_layer (container_file wrong_second) (empty_file 100) True
     = Some (Return InvalidSequenceOfBlocks (at_offset wrong_second 4)
         (fwrite (''; generated by Unknown'' @ [CHR 0x0A, CHR 0x0A, CHR 0x0A]) (empty_file 100)))
   \<and> from_binary_to_ascii spec_layer (container_file wrong_third) (empty_file 100) True
     = Some (Return InvalidSequenceOfBlocks (at_offset wrong_third 6)
         (fwrite (text_of_lines [''G1 X1'']) (fwrite [CHR 0x0A]
           (fwrite (''; generated by Unknown'' @ [CHR 0x0A, CHR 0x0A, CHR 0x0A])
              (empty_file 100)))))
   \<and> from_binary_to_ascii spec_layer (container_file layers_10) (empty_file 100) True
     = Some (Return InvalidSequenceOfBlocks (at_offset layers_10 8)
         (fwrite (metadata_line (''Layers'', ''10'')) (fwrite [CHR 0x0A]
           (fwrite (text_of_lines [''G1 X0'']) (fwrite [CHR 0x0A]
             (fwrite (''; generated by Unknown'' @ [CHR 0x0A, CHR 0x0A, CHR 0x0A])
                (empty_file 100)))))))"
proof -
  let ?d0 = "empty_file 100"
  let ?d1 = "fwrite (''; generated by Unknown'' @ [CHR 0x0A, CHR 0x0A, CHR 0x0A]) ?d0"
  let ?d2 = "fwrite [CHR 0x0A] ?d1"
  have a: "from_binary_to_ascii spec_layer (container_file wrong_first) ?d0 True
     = Some (Return InvalidSequenceOfBlocks (at_offset wrong_first 2) ?d0)"
  proof -
    let ?c = wrong_first
    have v: "is_valid_binary_gcode spec_layer (container_file ?c) True
               = (Success, container_file ?c)" by code_simp
    have h: "read_header spec_layer (rewind (fseek_end (container_file ?c)))
               = (Success, header1, at_offset ?c 1)" by code_simp
    have n: "read_next_block_header spec_layer (at_offset ?c 1) header1 True
               = (Success, header_of GCode, at_offset ?c 2)" by code_simp
    have t: "btype (header_of GCode) \<noteq> FileMetadata" by code_simp
    from wrong_block_type_stops [where B = spec_layer and src = "container_file ?c"
        and dst = ?d0 and vc = True and s = "container_file ?c" and fh = header1
        and ?s0.0 = "at_offset ?c 1" and hdr = "header_of GCode" and ?s1.0 = "at_offset ?c 2"]
      v h n t
    show ?thesis by blast
  qed
  have b: "from_binary_to_ascii spec_layer (container_file wrong_second) ?d0 True
     = Some (Return InvalidSequenceOfBlocks (at_offset wrong_second 4) ?d1)"
  proof -
    let ?c = wrong_second
    have v: "is_valid_binary_gcode spec_layer (container_file ?c) True
               = (Success, container_file ?c)" by code_simp
    have h: "read_header spec_layer (rewind (fseek_end (container_file ?c)))
               = (Success, header1, at_offset ?c 1)" by code_simp
    have f: "convert_file_metadata spec_layer header1 True (at_offset ?c 1) ?d0
               = Inr (at_offset ?c 3, ?d1)" by code_simp
    have n: "read_next_block_header spec_layer (at_offset ?c 3) header1 True
               = (Success, header_of GCode, at_offset ?c 4)" by code_simp
    have t: "btype (header_of GCode) \<noteq> PrinterMetadata" by code_simp
    from wrong_block_type_stops [where B = spec_layer and src = "container_file ?c"
        and dst = ?d0 and vc = True and s = "container_file ?c" and fh = header1
        and ?s0.0 = "at_offset ?c 1" and hdr = "header_of GCode"
        and ?s2.0 = "at_offset ?c 3" and ?d2.0 = ?d1 and ?s3.0 = "at_offset ?c 4"]
      v h f n t
    show ?thesis by blast
  qed
  have c: "from_binary_to_ascii spec_layer (container_file wrong_third) ?d0 True
     = Some (Return InvalidSequenceOfBlocks (at_offset wrong_third 6)
         (fwrite (text_of_lines [''G1 X1'']) ?d2))"
  proof -
    let ?c = wrong_third
    let ?d3 = "fwrite (text_of_lines [''G1 X1'']) ?d2"
    have v: "is_valid_binary_gcode spec_layer (container_file ?c) True
               = (Success, container_file ?c)" by code_simp
    have h: "read_header spec_layer (rewind (fseek_end (container_file ?c)))
               = (Success, header1, at_offset ?c 1)" by code_simp
    have f: "convert_file_metadata spec_layer header1 True (at_offset ?c 1) ?d0
               = Inr (at_offset ?c 3, ?d1)" by code_simp
    have p: "convert_printer_metadata spec_layer header1 True (at_offset ?c 3) ?d1
               = Inr (at_offset ?c 5, ?d1)" by code_simp
    have th: "convert_thumbnails spec_layer header1 True (at_offset ?c 5) ?d1
               = Some (Inr (5, header_of GCode, at_offset ?c 6, ?d1))" by code_simp
    have g: "convert_gcode spec_layer header1 True (file_length (container_file ?c))
               (header_of GCode) (at_offset ?c 6) ?d1
               = Some (Inr (at_offset ?c 9, ?d3))" by code_simp
    have n: "read_next_block_header spec_layer (fseek_set (at_offset ?c 9) 5) header1 True
               = (Success, header_of GCode, at_offset ?c 6)" by code_simp
    have t: "btype (header_of GCode) \<noteq> PrintMetadata" by code_simp
    from wrong_block_type_stops [where B = spec_layer and src = "container_file ?c"
        and dst = ?d0 and vc = True and s = "container_file ?c" and fh = header1
        and ?s0.0 = "at_offset ?c 1" and hdr = "header_of GCode"
        and ?s2.0 = "at_offset ?c 3" and ?d2.0 = ?d1
        and ?s4.0 = "at_offset ?c 5" and ?d4.0 = ?d1 and r = 5 and h = "header_of GCode"
        and ?s5.0 = "at_offset ?c 6" and ?d5.0 = ?d1
        and ?s6.0 = "at_offset ?c 9" and ?d6.0 = ?d3 and ?s7.0 = "at_offset ?c 6"]
      v h f p th g n t
    show ?thesis by blast
  qed
  have d: "from_binary_to_ascii spec_layer (container_file layers_10) ?d0 True
     = Some (Return InvalidSequenceOfBlocks (at_offset layers_10 8)
         (fwrite (metadata_line (''Layers'', ''10'')) (fwrite [CHR 0x0A]
           (fwrite (text_of_lines [''G1 X0'']) ?d2))))"
  proof -
    let ?c = layers_10
    let ?d3 = "fwrite (text_of_lines [''G1 X0'']) ?d2"
    let ?d4 = "fwrite (metadata_line (''Layers'', ''10'')) (fwrite [CHR 0x0A] ?d3)"
    have v: "is_valid_binary_gcode spec_layer (container_file ?c) True
               = (Success, container_file ?c)" by code_simp
    have h: "read_header spec_layer (rewind (fseek_end (container_file ?c)))
               = (Success, header1, at_offset ?c 1)" by code_simp
    have f: "convert_file_metadata spec_layer header1 True (at_offset ?c 1) ?d0
               = Inr (at_offset ?c 3, ?d1)" by code_simp
    have p: "convert_printer_metadata spec_layer header1 True (at_offset ?c 3) ?d1
               = Inr (at_offset ?c 5, ?d1)" by code_simp
    have th: "convert_thumbnails spec_layer header1 True (at_offset ?c 5) ?d1
               = Some (Inr (5, header_of PrintMetadata, at_offset ?c 6, ?d1))" by code_simp
    have g: "convert_gcode spec_layer header1 True (file_length (container_file ?c))
               (header_of PrintMetadata) (at_offset ?c 6) ?d1
               = Some (Inr (at_offset ?c 9, ?d3))" by code_simp
    have pm: "convert_print_metadata spec_layer header1 True 5 (at_offset ?c 9) ?d3
               = Inr (at_offset ?c 7, ?d4)" by code_simp
    have n: "read_next_block_header spec_layer (at_offset ?c 7) header1 True
               = (Success, header_of GCode, at_offset ?c 8)" by code_simp
    have t: "btype (header_of GCode) \<noteq> SlicerMetadata" by code_simp
    from wrong_block_type_stops [where B = spec_layer and src = "container_file ?c"
        and dst = ?d0 and vc = True and s = "container_file ?c" and fh = header1
        and ?s0.0 = "at_offset ?c 1" and hdr = "header_of GCode"
        and ?s2.0 = "at_offset ?c 3" and ?d2.0 = ?d1
        and ?s4.0 = "at_offset ?c 5" and ?d4.0 = ?d1 and r = 5 and h = "header_of PrintMetadata"
        and ?s5.0 = "at_offset ?c 6" and ?d5.0 = ?d1
        and ?s6.0 = "at_offset ?c 9" and ?d6.0 = ?d3
        and ?s8.0 = "at_offset ?c 7" and ?d8.0 = ?d4 and ?s9.0 = "at_offset ?c 8"]
      v h f p th g pm n t
    show ?thesis by blast
  qed
  from a b c d show ?thesis by (intro conjI)
qed


text \<open>
  Claim C9. \<open>file_size\<close> is the length of the source file. After a GCode block has
  been converted, the GCode loop ends without an error when the stream position equals
  \<open>file_size\<close>; otherwise it reads the next block header and goes round again, and
  this ends the loop, again without an error, when that header is not a GCode header.
\<close>

theorem gcode_loop_ends_at_file_size:
  "(is_valid_binary_gcode B src True = (Success, s)
      \<and> read_header B (rewind (fseek_end s)) = (Success, fh, s0) \<longrightarrow>
      from_binary_to_ascii B src dst vc = convert_blocks B fh vc (file_length s) s0 dst)
   \<and> (btype hdr = GCode \<and> read_gcode B s1 fh hdr = (Success, raw, s2)
        \<and> remove_empty_lines raw = Some out
        \<and> (if out \<noteq> [] then write_line out d else (True, d)) = (True, d1) \<longrightarrow>
        (ftell s2 = fs \<longrightarrow> gcode_loop B fh vc fs hdr s1 d = Some (Inr (s2, d1)))
        \<and> (ftell s2 \<noteq> fs \<and> read_next_block_header B s2 fh vc = (Success, hdr', s3) \<longrightarrow>
             gcode_loop B fh vc fs hdr s1 d = gcode_loop B fh vc fs hdr' s3 d1
             \<and> (btype hdr' \<noteq> GCode \<longrightarrow>
                  gcode_loop B fh vc fs hdr s1 d = Some (Inr (s3, d1)))))"
proof -
  have stop: "gcode_loop B fh vc fs hdr' s3 d1 = Some (Inr (s3, d1))" if "btype hdr' \<noteq> GCode"
    using that by (subst gcode_loop.simps) simp
  have step: "gcode_loop B fh vc fs hdr s1 d =
     (if ftell s2 = fs then Some (Inr (s2, d1))
      else (case read_next_block_header B s2 fh vc of
              (res, hdr', s3) \<Rightarrow>
                if res \<noteq> Success then Some (Inl (Return res s3 d1))
                else gcode_loop B fh vc fs hdr' s3 d1))"
    if "btype hdr = GCode" "read_gcode B s1 fh hdr = (Success, raw, s2)"
      "remove_empty_lines raw = Some out"
      "(if out \<noteq> [] then write_line out d else (True, d)) = (True, d1)"
    using that by (rule gcode_loop_step)
  show ?thesis
    using from_binary_to_ascii_blocks [of B src s fh s0 dst vc] step stop
    by (auto simp del: split_paired_All split_paired_Ex)
qed

theorem gcode_loop_ends_at_file_size_witness:
  "from_binary_to_ascii seek_layer (container_file stored_with_thumbnails) (empty_file 1000) True
     = convert_blocks seek_layer header1 True 17 (at_offset stored_with_thumbnails 1)
         (empty_file 1000)
   \<and> gcode_loop seek_layer header1 True 17 (header_of GCode)
         (at_offset stored_with_thumbnails 14) (empty_file 1000)
     = gcode_loop seek_layer header1 True 17 (header_of GCode)
         (at_offset stored_with_thumbnails 16)
         (fwrite (text_of_lines [''G1 X0'']) (empty_file 1000))
   \<and> gcode_loop seek_layer header1 True 17 (header_of GCode)
         (at_offset stored_with_thumbnails 16) (empty_file 1000)
     = Some (Inr (at_offset stored_with_thumbnails 17,
                 fwrite (text_of_lines [''G1 X1 ; move'']) (empty_file 1000)))
   \<and> gcode_loop spec_layer header1 True 11 (header_of GCode)
         (at_offset example_blocks 6) (empty_file 1000)
     = Some (Inr (at_offset example_blocks 8,
                 fwrite (text_of_lines [''G1 X0'', ''; comment'', ''G1 X1'']) (empty_file 1000)))"
proof -
  let ?c = stored_with_thumbnails
  let ?d0 = "empty_file 1000"
  have v: "is_valid_binary_gcode seek_layer (container_file ?c) True
             = (Success, container_file ?c)" by code_simp
  have h: "read_header seek_layer (rewind (fseek_end (container_file ?c)))
             = (Success, header1, at_offset ?c 1)" by code_simp
  have len: "file_length (container_file ?c) = 17" by code_simp
  have ty: "btype (header_of GCode) = GCode" by code_simp
  have r1: "read_gcode seek_layer (at_offset ?c 14) header1 (header_of GCode)
             = (Success, text_of_lines [''G1 X0'', '';''], at_offset ?c 15)" by code_simp
  have o1: "remove_empty_lines (text_of_lines [''G1 X0'', '';''])
             = Some (text_of_lines [''G1 X0''])" by code_simp
  have w1: "(if text_of_lines [''G1 X0''] \<noteq> [] then write_line (text_of_lines [''G1 X0'']) ?d0
             else (True, ?d0)) = (True, fwrite (text_of_lines [''G1 X0'']) ?d0)" by code_simp
  have p1: "ftell (at_offset ?c 15) \<noteq> 17" by code_simp
  have n1: "read_next_block_header seek_layer (at_offset ?c 15) header1 True
             = (Success, header_of GCode, at_offset ?c 16)" by code_simp
  have r2: "read_gcode seek_layer (at_offset ?c 16) header1 (header_of GCode)
             = (Success, text_of_lines [''G1 X1 ; move''], at_offset ?c 17)" by code_simp
  have o2: "remove_empty_lines (text_of_lines [''G1 X1 ; move''])
             = Some (text_of_lines [''G1 X1 ; move''])" by code_simp
  have w2: "(if text_of_lines [''G1 X1 ; move''] \<noteq> []
             then write_line (text_of_lines [''G1 X1 ; move'']) ?d0 else (True, ?d0))
             = (True, fwrite (text_of_lines [''G1 X1 ; move'']) ?d0)" by code_simp
  have p2: "ftell (at_offset ?c 17) = 17" by code_simp
  let ?e = example_blocks
  let ?t3 = "text_of_lines [''G1 X0'', ''; comment'', ''G1 X1'']"
  have r3: "read_gcode spec_layer (at_offset ?e 6) header1 (header_of GCode)
             = (Success, text_of_lines [''G1 X0'', ''; comment'', '''', ''G1 X1''],
                at_offset ?e 7)" by code_simp
  have o3: "remove_empty_lines (text_of_lines [''G1 X0'', ''; comment'', '''', ''G1 X1''])
             = Some ?t3" by code_simp
  have w3: "(if ?t3 \<noteq> [] then write_line ?t3 ?d0 else (True, ?d0)) = (True, fwrite ?t3 ?d0)"
    by code_simp
  have p3: "ftell (at_offset ?e 7) \<noteq> 11" by code_simp
  have n3: "read_next_block_header spec_layer (at_offset ?e 7) header1 True
             = (Success, header_of PrintMetadata, at_offset ?e 8)" by code_simp
  have t3: "btype (header_of PrintMetadata) \<noteq> GCode" by code_simp
  from gcode_loop_ends_at_file_size [where B = seek_layer and src = "container_file ?c"
      and s = "container_file ?c" and fh = header1 and ?s0.0 = "at_offset ?c 1"
      and dst = ?d0 and vc = True] v h len
  have a: "from_binary_to_ascii seek_layer (container_file ?c) ?d0 True
     = convert_blocks seek_layer header1 True 17 (at_offset ?c 1) ?d0"
    by simp
  from gcode_loop_ends_at_file_size [where B = seek_layer and fh = header1
      and hdr = "header_of GCode" and ?s1.0 = "at_offset ?c 14" and ?s2.0 = "at_offset ?c 15"
      and raw = "text_of_lines [''G1 X0'', '';'']" and out = "text_of_lines [''G1 X0'']"
      and d = ?d0 and ?d1.0 = "fwrite (text_of_lines [''G1 X0'']) ?d0" and fs = 17
      and vc = True and hdr' = "header_of GCode" and ?s3.0 = "at_offset ?c 16"]
    ty r1 o1 w1 p1 n1
  have b: "gcode_loop seek_layer header1 True 17 (header_of GCode) (at_offset ?c 14) ?d0
     = gcode_loop seek_layer header1 True 17 (header_of GCode) (at_offset ?c 16)
         (fwrite (text_of_lines [''G1 X0'']) ?d0)"
    by blast
  from gcode_loop_ends_at_file_size [where B = seek_layer and fh = header1
      and hdr = "header_of GCode" and ?s1.0 = "at_offset ?c 16" and ?s2.0 = "at_offset ?c 17"
      and raw = "text_of_lines [''G1 X1 ; move'']" and out = "text_of_lines [''G1 X1 ; move'']"
      and d = ?d0 and ?d1.0 = "fwrite (text_of_lines [''G1 X1 ; move'']) ?d0" and fs = 17
      and vc = True]
    ty r2 o2 w2 p2
  have c: "gcode_loop seek_layer header1 True 17 (header_of GCode) (at_offset ?c 16) ?d0
     = Some (Inr (at_offset ?c 17, fwrite (text_of_lines [''G1 X1 ; move'']) ?d0))"
    by blast
  from gcode_loop_ends_at_file_size [where B = spec_layer and fh = header1
      and hdr = "header_of GCode" and ?s1.0 = "at_offset ?e 6" and ?s2.0 = "at_offset ?e 7"
      and raw = "text_of_lines [''G1 X0'', ''; comment'', '''', ''G1 X1'']" and out = ?t3
      and d = ?d0 and ?d1.0 = "fwrite ?t3 ?d0" and fs = 11
      and vc = True and hdr' = "header_of PrintMetadata" and ?s3.0 = "at_offset ?e 8"]
    ty r3 o3 w3 p3 n3 t3
  have d: "gcode_loop spec_layer header1 True 11 (header_of GCode) (at_offset ?e 6) ?d0
     = Some (Inr (at_offset ?e 8, fwrite ?t3 ?d0))"
    by blast
  from a b c d show ?thesis by (intro conjI)
qed

lemma convert_thumbnails_run:
  assumes "read_next_block_header B s fh vc = (Success, hdr, s1)"
    and "read_thumbnails B fh vc ts (ftell s) hdr s1 = Some (r, hdr', s')"
    and "\<not> failed d" "length (concat (concat (map framing ts))) \<le> room d"
  shows "convert_thumbnails B fh vc s d
           = Some (Inr (r, hdr', s', append_writes (concat (map framing ts)) d))"
  using thumbnails_loop_run [OF assms(2,3,4)] assms(1)
  by (simp add: convert_thumbnails_def Let_def)

lemma framing_begin:
  "hd (framing t) = begin_line t (concat (map strip_body_line (butlast (tl (framing t)))))"
  by (simp add: framing_def o_def rows_of_concat)

text \<open>
  Claim C6. When the layer delivers the thumbnails \<open>ts\<close> after the printer metadata,
  the thumbnail loop writes exactly their framings, one per thumbnail and in order,
  after the printer metadata lines and before anything of the GCode part, which runs on
  the file that holds them. The begin line of a framing carries, as its last field, the
  number of characters of its body lines without their \<open>"; "\<close> and newline.
\<close>

theorem thumbnails_framed:
  "(read_next_block_header B s fh vc = (Success, hdr, s1)
      \<and> read_thumbnails B fh vc ts (ftell s) hdr s1 = Some (r, hdr', s')
      \<and> \<not> failed d \<and> length (concat (concat (map framing ts))) \<le> room d \<longrightarrow>
      convert_thumbnails B fh vc s d
        = Some (Inr (r, hdr', s', append_writes (concat (map framing ts)) d))
      \<and> (convert_printer_metadata B fh vc s0 d0 = Inr (s, d) \<longrightarrow>
           from_printer_metadata B fh vc fs s0 d0
             = from_gcode B fh vc fs r hdr' s' (append_writes (concat (map framing ts)) d)))
   \<and> hd (framing t)
       = [CHR 0x0A] @ '';'' @ [CHR 0x0A] @ ''; '' @ format_name (format t) @ '' begin ''
         @ to_string (unat (width t)) @ ''x'' @ to_string (unat (height t)) @ '' ''
         @ to_string (length (concat (map strip_body_line (butlast (tl (framing t))))))
         @ [CHR 0x0A]
   \<and> butlast (tl (framing t)) = map body_line (rows_of (base64_encode (data t)))
   \<and> last (framing t) = end_line t"
proof -
  have run: "convert_thumbnails B fh vc s d
        = Some (Inr (r, hdr', s', append_writes (concat (map framing ts)) d))"
    if "read_next_block_header B s fh vc = (Success, hdr, s1)"
      "read_thumbnails B fh vc ts (ftell s) hdr s1 = Some (r, hdr', s')"
      "\<not> failed d" "length (concat (concat (map framing ts))) \<le> room d"
    using that by (rule convert_thumbnails_run)
  have place: "from_printer_metadata B fh vc fs s0 d0
             = from_gcode B fh vc fs r hdr' s' (append_writes (concat (map framing ts)) d)"
    if "convert_thumbnails B fh vc s d
        = Some (Inr (r, hdr', s', append_writes (concat (map framing ts)) d))"
      "convert_printer_metadata B fh vc s0 d0 = Inr (s, d)"
    using that by (simp add: from_printer_metadata_cont from_thumbnails_cont)
  have b: "hd (framing t)
       = [CHR 0x0A] @ '';'' @ [CHR 0x0A] @ ''; '' @ format_name (format t) @ '' begin ''
         @ to_string (unat (width t)) @ ''x'' @ to_string (unat (height t)) @ '' ''
         @ to_string (length (concat (map strip_body_line (butlast (tl (framing t))))))
         @ [CHR 0x0A]"
    by (subst framing_begin) (simp add: begin_line_def)
  have m: "butlast (tl (framing t)) = map body_line (rows_of (base64_encode (data t)))"
    by (simp add: framing_def)
  have e: "last (framing t) = end_line t"
    by (simp add: framing_def)
  show ?thesis using run place b m e by blast
qed

text \<open>
  Claim C4. The offset that the thumbnail part hands on is the stream offset taken just
  before the read of the header that ended the loop; the GCode part neither receives nor
  changes it, the rest of the function gets the same value; and the header of the print
  metadata block is read from the source positioned at exactly that offset.
\<close>

theorem restore_position_threaded:
  "(convert_thumbnails B fh vc s d = Some (Inr (r, hdr, s', d')) \<longrightarrow>
      btype hdr \<noteq> Thumbnail
      \<and> (\<exists>pre. r = ftell pre \<and> read_next_block_header B pre fh vc = (Success, hdr, s'))
      \<and> (convert_gcode B fh vc fs hdr s' d' = Some (Inr (s'', d'')) \<longrightarrow>
           from_thumbnails B fh vc fs s d = Some (finish_metadata B fh vc r s'' d'')))
   \<and> ftell (fseek_set s'' r) = r
   \<and> (read_next_block_header B (fseek_set s'' r) fh vc = (res, h, s5) \<longrightarrow>
        (res \<noteq> Success \<longrightarrow> finish_metadata B fh vc r s'' d'' = Return res s5 d'')
        \<and> (res = Success \<and> btype h \<noteq> PrintMetadata \<longrightarrow>
             finish_metadata B fh vc r s'' d'' = Return InvalidSequenceOfBlocks s5 d'')
        \<and> (res = Success \<and> btype h = PrintMetadata
             \<and> read_print_metadata B s5 fh h = (Success, raw, s6)
             \<and> \<not> failed d'' \<and> length (concat ([CHR 0x0A] # map metadata_line raw)) \<le> room d'' \<longrightarrow>
             finish_metadata B fh vc r s'' d''
               = convert_slicer_metadata B fh vc s6
                   (append_writes ([CHR 0x0A] # map metadata_line raw) d'')))"
proof -
  have off: "btype hdr \<noteq> Thumbnail
      \<and> (\<exists>pre. r = ftell pre \<and> read_next_block_header B pre fh vc = (Success, hdr, s'))"
    if "convert_thumbnails B fh vc s d = Some (Inr (r, hdr, s', d'))"
    using that by (rule convert_thumbnails_offset)
  have keep: "from_thumbnails B fh vc fs s d = Some (finish_metadata B fh vc r s'' d'')"
    if "convert_thumbnails B fh vc s d = Some (Inr (r, hdr, s', d'))"
      "convert_gcode B fh vc fs hdr s' d' = Some (Inr (s'', d''))"
    using that by (simp add: from_thumbnails_cont from_gcode_cont)
  have seek: "ftell (fseek_set s'' r) = r"
    by (simp add: ftell_def fseek_set_def)
  have f1: "finish_metadata B fh vc r s'' d'' = Return res s5 d''"
    if "read_next_block_header B (fseek_set s'' r) fh vc = (res, h, s5)" "res \<noteq> Success"
    using that by (simp add: finish_metadata_def convert_print_metadata_def)
  have f2: "finish_metadata B fh vc r s'' d'' = Return InvalidSequenceOfBlocks s5 d''"
    if "read_next_block_header B (fseek_set s'' r) fh vc = (res, h, s5)" "res = Success"
      "btype h \<noteq> PrintMetadata"
    using that by (simp add: finish_metadata_def convert_print_metadata_def)
  have f3: "finish_metadata B fh vc r s'' d''
               = convert_slicer_metadata B fh vc s6
                   (append_writes ([CHR 0x0A] # map metadata_line raw) d'')"
    if h: "read_next_block_header B (fseek_set s'' r) fh vc = (res, h, s5)" "res = Success"
      "btype h = PrintMetadata" "read_print_metadata B s5 fh h = (Success, raw, s6)"
      and nf: "\<not> failed d''"
      and fit: "length (concat ([CHR 0x0A] # map metadata_line raw)) \<le> room d''"
  proof -
    from fit have fit1: "length [CHR 0x0A] \<le> room d''" by simp
    have w1: "write_line [CHR 0x0A] d'' = (True, append_writes [[CHR 0x0A]] d'')"
      by (rule write_line_append [OF nf fit1])
    have w2: "write_metadata raw (append_writes [[CHR 0x0A]] d'')
              = (True, append_writes (map metadata_line raw) (append_writes [[CHR 0x0A]] d''))"
      using nf fit by (intro write_metadata_append) simp_all
    show ?thesis
      using h by (simp add: finish_metadata_def convert_print_metadata_def w1 w2
          append_writes_append)
  qed
  show ?thesis
    using off keep seek f1 f2 f3 by blast
qed

theorem thumbnails_framed_witness:
  "convert_thumbnails seek_layer header1 True (at_offset stored_with_thumbnails 5)
       (fwrite (metadata_line (''Printer'', ''X1'')) (empty_file 1000))
     = Some (Inr (9, header_of PrintMetadata, at_offset stored_with_thumbnails 10,
         append_writes (concat (map framing [small_png, small_qoi]))
           (fwrite (metadata_line (''Printer'', ''X1'')) (empty_file 1000))))
   \<and> from_printer_metadata seek_layer header1 True 17 (at_offset stored_with_thumbnails 3)
       (empty_file 1000)
     = from_gcode seek_layer header1 True 17 9 (header_of PrintMetadata)
         (at_offset stored_with_thumbnails 10)
         (append_writes (concat (map framing [small_png, small_qoi]))
           (fwrite (metadata_line (''Printer'', ''X1'')) (empty_file 1000)))
   \<and> hd (framing small_qoi)
       = [CHR 0x0A] @ '';'' @ [CHR 0x0A] @ ''; thumbnail_QOI begin 220x124 8'' @ [CHR 0x0A]
   \<and> butlast (tl (framing small_qoi)) = [''; AQIDBAU='' @ [CHR 0x0A]]
   \<and> length (concat (map strip_body_line (butlast (tl (framing small_qoi))))) = 8"
proof -
  let ?c = stored_with_thumbnails
  let ?d0 = "empty_file 1000"
  let ?dp = "fwrite (metadata_line (''Printer'', ''X1'')) ?d0"
  have p: "convert_printer_metadata seek_layer header1 True (at_offset ?c 3) ?d0
            = Inr (at_offset ?c 5, ?dp)" by code_simp
  have n: "read_next_block_header seek_layer (at_offset ?c 5) header1 True
            = (Success, header_of Thumbnail, at_offset ?c 6)" by code_simp
  have t: "read_thumbnails seek_layer header1 True [small_png, small_qoi]
             (ftell (at_offset ?c 5)) (header_of Thumbnail) (at_offset ?c 6)
            = Some (9, header_of PrintMetadata, at_offset ?c 10)" by code_simp
  have f: "\<not> failed ?dp" by code_simp
  have l: "length (concat (concat (map framing [small_png, small_qoi]))) \<le> room ?dp"
    by code_simp
  note inst = thumbnails_framed [where B = seek_layer and s = "at_offset ?c 5" and fh = header1
      and vc = True and hdr = "header_of Thumbnail" and ?s1.0 = "at_offset ?c 6"
      and ts = "[small_png, small_qoi]" and r = 9 and hdr' = "header_of PrintMetadata"
      and s' = "at_offset ?c 10" and d = ?dp and ?s0.0 = "at_offset ?c 3" and ?d0.0 = ?d0
      and fs = 17 and t = small_qoi]
  from inst n t f l
  have a: "convert_thumbnails seek_layer header1 True (at_offset ?c 5) ?dp
     = Some (Inr (9, header_of PrintMetadata, at_offset ?c 10,
         append_writes (concat (map framing [small_png, small_qoi])) ?dp))"
    by blast
  from inst n t f l p
  have b: "from_printer_metadata seek_layer header1 True 17 (at_offset ?c 3) ?d0
     = from_gcode seek_layer header1 True 17 9 (header_of PrintMetadata) (at_offset ?c 10)
         (append_writes (concat (map framing [small_png, small_qoi])) ?dp)"
    by blast
  have m: "butlast (tl (framing small_qoi)) = [''; AQIDBAU='' @ [CHR 0x0A]]" by code_simp
  have k: "length (concat (map strip_body_line (butlast (tl (framing small_qoi))))) = 8"
    by code_simp
  have e: "[CHR 0x0A] @ '';'' @ [CHR 0x0A] @ ''; '' @ format_name (format small_qoi)
         @ '' begin '' @ to_string (unat (width small_qoi)) @ ''x''
         @ to_string (unat (height small_qoi)) @ '' '' @ to_string 8 @ [CHR 0x0A]
       = [CHR 0x0A] @ '';'' @ [CHR 0x0A] @ ''; thumbnail_QOI begin 220x124 8'' @ [CHR 0x0A]"
    by code_simp
  from inst have "hd (framing small_qoi)
       = [CHR 0x0A] @ '';'' @ [CHR 0x0A] @ ''; '' @ format_name (format small_qoi)
         @ '' begin '' @ to_string (unat (width small_qoi)) @ ''x''
         @ to_string (unat (height small_qoi)) @ '' ''
         @ to_string (length (concat (map strip_body_line (butlast (tl (framing small_qoi))))))
         @ [CHR 0x0A]"
    by blast
  then have h: "hd (framing small_qoi)
       = [CHR 0x0A] @ '';'' @ [CHR 0x0A] @ ''; thumbnail_QOI begin 220x124 8'' @ [CHR 0x0A]"
    unfolding k e .
  from a b h m k show ?thesis by (intro conjI)
qed

theorem restore_position_threaded_witness:
  "btype (header_of PrintMetadata) \<noteq> Thumbnail
   \<and> ftell (at_offset stored_with_thumbnails 9) = 9
   \<and> read_next_block_header seek_layer (at_offset stored_with_thumbnails 9) header1 True
       = (Success, header_of PrintMetadata, at_offset stored_with_thumbnails 10)
   \<and> from_thumbnails seek_layer header1 True 17 (at_offset stored_with_thumbnails 5)
         (empty_file 1000)
       = Some (finish_metadata seek_layer header1 True 9 (at_offset stored_with_thumbnails 17)
           (append_writes
              ([[CHR 0x0A], text_of_lines [''G1 X0''], text_of_lines [''G1 X1 ; move'']])
              (append_writes (concat (map framing [small_png, small_qoi])) (empty_file 1000))))
   \<and> finish_metadata seek_layer header1 True 9 (at_offset stored_with_thumbnails 17)
         (empty_file 1000)
       = convert_slicer_metadata seek_layer header1 True (at_offset stored_with_thumbnails 11)
           (append_writes [[CHR 0x0A], metadata_line (''Layers'', ''10'')] (empty_file 1000))
   \<and> finish_metadata spec_layer header1 True 5 (at_offset wrong_third 9) (empty_file 1000)
       = Return InvalidSequenceOfBlocks (at_offset wrong_third 6) (empty_file 1000)
   \<and> finish_metadata spec_layer header1 True 9 (at_offset wrong_third 9) (empty_file 1000)
       = Return ReadError (at_offset wrong_third 9) (empty_file 1000)"
proof -
  let ?c = stored_with_thumbnails
  let ?d0 = "empty_file 1000"
  let ?d1 = "append_writes (concat (map framing [small_png, small_qoi])) ?d0"
  let ?d2 = "append_writes
              ([[CHR 0x0A], text_of_lines [''G1 X0''], text_of_lines [''G1 X1 ; move'']]) ?d1"
  have th: "convert_thumbnails seek_layer header1 True (at_offset ?c 5) ?d0
             = Some (Inr (9, header_of PrintMetadata, at_offset ?c 10, ?d1))" by code_simp
  have g: "convert_gcode seek_layer header1 True 17 (header_of PrintMetadata)
             (at_offset ?c 10) ?d1 = Some (Inr (at_offset ?c 17, ?d2))" by code_simp
  note inst1 = restore_position_threaded [where B = seek_layer and fh = header1 and vc = True
      and s = "at_offset ?c 5" and d = ?d0 and r = 9 and hdr = "header_of PrintMetadata"
      and s' = "at_offset ?c 10" and d' = ?d1 and fs = 17 and s'' = "at_offset ?c 17"
      and d'' = ?d2]
  from inst1 th have a: "btype (header_of PrintMetadata) \<noteq> Thumbnail" by blast
  from inst1 th g
  have b: "from_thumbnails seek_layer header1 True 17 (at_offset ?c 5) ?d0
       = Some (finish_metadata seek_layer header1 True 9 (at_offset ?c 17) ?d2)"
    by blast
  have pos: "ftell (at_offset ?c 9) = 9" by code_simp
  have n: "read_next_block_header seek_layer (at_offset ?c 9) header1 True
       = (Success, header_of PrintMetadata, at_offset ?c 10)" by code_simp
  have n1: "read_next_block_header seek_layer (fseek_set (at_offset ?c 17) 9) header1 True
       = (Success, header_of PrintMetadata, at_offset ?c 10)" by code_simp
  have ty: "btype (header_of PrintMetadata) = PrintMetadata" by code_simp
  have rd: "read_print_metadata seek_layer (at_offset ?c 10) header1 (header_of PrintMetadata)
       = (Success, [(''Layers'', ''10'')], at_offset ?c 11)" by code_simp
  have nf: "\<not> failed ?d0" by code_simp
  have fit: "length (concat ([CHR 0x0A] # map metadata_line [(''Layers'', ''10'')]))
       \<le> room ?d0" by code_simp
  from restore_position_threaded [where B = seek_layer and fh = header1 and vc = True
      and r = 9 and s'' = "at_offset ?c 17" and d'' = ?d0 and res = Success
      and h = "header_of PrintMetadata" and ?s5.0 = "at_offset ?c 10"
      and raw = "[(''Layers'', ''10'')]" and ?s6.0 = "at_offset ?c 11"]
    n1 ty rd nf fit
  have c: "finish_metadata seek_layer header1 True 9 (at_offset ?c 17) ?d0
       = convert_slicer_metadata seek_layer header1 True (at_offset ?c 11)
           (append_writes ([CHR 0x0A] # map metadata_line [(''Layers'', ''10'')]) ?d0)"
    by blast
  have n2: "read_next_block_header spec_layer (fseek_set (at_offset wrong_third 9) 5)
       header1 True = (Success, header_of GCode, at_offset wrong_third 6)" by code_simp
  have ty2: "btype (header_of GCode) \<noteq> PrintMetadata" by code_simp
  from restore_position_threaded [where B = spec_layer and fh = header1 and vc = True
      and r = 5 and s'' = "at_offset wrong_third 9" and d'' = ?d0 and res = Success
      and h = "header_of GCode" and ?s5.0 = "at_offset wrong_third 6"]
    n2 ty2
  have e: "finish_metadata spec_layer header1 True 5 (at_offset wrong_third 9) ?d0
       = Return InvalidSequenceOfBlocks (at_offset wrong_third 6) ?d0"
    by blast
  have n3: "read_next_block_header spec_layer (fseek_set (at_offset wrong_third 9) 9)
       header1 True = (ReadError, no_header, at_offset wrong_third 9)" by code_simp
  have ne: "ReadError \<noteq> Success" by simp
  from restore_position_threaded [where B = spec_layer and fh = header1 and vc = True
      and r = 9 and s'' = "at_offset wrong_third 9" and d'' = ?d0 and res = ReadError
      and h = no_header and ?s5.0 = "at_offset wrong_third 9"]
    n3 ne
  have f: "finish_metadata spec_layer header1 True 9 (at_offset wrong_third 9) ?d0
       = Return ReadError (at_offset wrong_third 9) ?d0"
    by blast
  from a pos n b c e f show ?thesis by simp
qed


section \<open>The output only grows\<close>

lemma fwrite_prefix: "prefix (written d) (written (fwrite l d))"
  by (simp add: fwrite_def)

lemma write_line_prefix: "write_line l d = (ok, d') \<Longrightarrow> prefix (written d) (written d')"
  by (auto simp: write_line_def Let_def fwrite_prefix)

lemma prefix_written_trans:
  "prefix (written d) (written d1) \<Longrightarrow> prefix (written d1) (written d2) \<Longrightarrow>
   prefix (written d) (written (d2 :: out_file))"
  by (auto simp: prefix_def)

lemma output_extends_trans:
  "prefix (written d) (written d1) \<Longrightarrow> output_extends d1 out \<Longrightarrow> output_extends d out"
  by (cases out) (auto simp: prefix_def)

lemma write_metadata_prefix:
  "write_metadata items d = (ok, d') \<Longrightarrow> prefix (written d) (written d')"
proof (induction items arbitrary: d)
  case Nil
  then show ?case by simp
next
  case (Cons item items)
  obtain ok1 d1 where w: "write_line (metadata_line item) d = (ok1, d1)"
    by (cases "write_line (metadata_line item) d") auto
  note p1 = write_line_prefix [OF w]
  show ?case
  proof (cases ok1)
    case False
    with Cons.prems w p1 show ?thesis by simp
  next
    case True
    with Cons.prems w have "write_metadata items d1 = (ok, d')" by simp
    from prefix_written_trans [OF p1 Cons.IH [OF this]] show ?thesis .
  qed
qed

lemma write_rows_prefix:
  "write_rows encoded d = (ok, d') \<Longrightarrow> prefix (written d) (written d')"
proof (induction encoded d arbitrary: ok d' rule: write_rows.induct)
  case (1 encoded f)
  show ?case
  proof (cases "length encoded > max_row_length")
    case True
    obtain ok1 f1 where w: "write_line (body_line (take max_row_length encoded)) f = (ok1, f1)"
      by (cases "write_line (body_line (take max_row_length encoded)) f") auto
    note p1 = write_line_prefix [OF w]
    show ?thesis
    proof (cases ok1)
      case False
      with "1.prems" True w p1 show ?thesis
        by (subst (asm) write_rows.simps) simp
    next
      case ok: True
      with "1.prems" True w have r: "write_rows (drop max_row_length encoded) f1 = (ok, d')"
        by (subst (asm) write_rows.simps) simp
      have "prefix (written f1) (written d')"
        using "1.IH" [OF True w [symmetric] _ r] ok by simp
      with p1 show ?thesis by (rule prefix_written_trans)
    qed
  next
    case False
    with "1.prems" show ?thesis
      by (subst (asm) write_rows.simps) (auto split: if_splits dest: write_line_prefix)
  qed
qed

lemma write_thumbnail_prefix:
  assumes "write_thumbnail t d = (ok, d')"
  shows "prefix (written d) (written d')"
proof -
  let ?enc = "base64_encode (data t)"
  obtain ok1 d1 where w1: "write_line (begin_line t ?enc) d = (ok1, d1)"
    by (cases "write_line (begin_line t ?enc) d") auto
  obtain ok2 d2 where w2: "write_rows ?enc d1 = (ok2, d2)"
    by (cases "write_rows ?enc d1") auto
  obtain ok3 d3 where w3: "write_line (end_line t) d2 = (ok3, d3)"
    by (cases "write_line (end_line t) d2") auto
  note p1 = write_line_prefix [OF w1]
  note p2 = prefix_written_trans [OF p1 write_rows_prefix [OF w2]]
  note p3 = prefix_written_trans [OF p2 write_line_prefix [OF w3]]
  from assms w1 w2 w3 have "d' = d1 \<or> d' = d2 \<or> d' = d3"
    by (auto simp: write_thumbnail_def Let_def split: if_splits)
  with p1 p2 p3 show ?thesis by auto
qed

lemma convert_file_metadata_prefix:
  "case convert_file_metadata B fh vc s d of
     Inl out \<Rightarrow> output_extends d out
   | Inr (s', d') \<Rightarrow> prefix (written d) (written d')"
  by (auto simp: convert_file_metadata_def split: prod.splits dest: write_line_prefix)

lemma convert_printer_metadata_prefix:
  "case convert_printer_metadata B fh vc s d of
     Inl out \<Rightarrow> output_extends d out
   | Inr (s', d') \<Rightarrow> prefix (written d) (written d')"
  by (auto simp: convert_printer_metadata_def split: prod.splits dest: write_metadata_prefix)

lemma convert_print_metadata_prefix:
  "case convert_print_metadata B fh vc r s d of
     Inl out \<Rightarrow> output_extends d out
   | Inr (s', d') \<Rightarrow> prefix (written d) (written d')"
  by (auto simp: convert_print_metadata_def split: prod.splits
      dest: write_line_prefix
      dest!: write_metadata_prefix intro: prefix_written_trans)

lemma convert_slicer_metadata_prefix:
  "output_extends d (convert_slicer_metadata B fh vc s d)"
proof -
  let ?b = "[CHR 0x0A] @ ''; prusaslicer_config = begin'' @ [CHR 0x0A]"
  let ?e = "''; prusaslicer_config = end'' @ [CHR 0x0A, CHR 0x0A]"
  obtain res hdr s1 where n: "read_next_block_header B s fh vc = (res, hdr, s1)"
    by (cases "read_next_block_header B s fh vc") auto
  obtain res2 raw s2 where r: "read_slicer_metadata B s1 fh hdr = (res2, raw, s2)"
    by (cases "read_slicer_metadata B s1 fh hdr") auto
  obtain ok1 d1 where w1: "write_line ?b d = (ok1, d1)"
    by (cases "write_line ?b d") auto
  obtain ok2 d2 where w2: "write_metadata raw d1 = (ok2, d2)"
    by (cases "write_metadata raw d1") auto
  obtain ok3 d3 where w3: "write_line ?e d2 = (ok3, d3)"
    by (cases "write_line ?e d2") auto
  note p1 = write_line_prefix [OF w1]
  note p2 = prefix_written_trans [OF p1 write_metadata_prefix [OF w2]]
  note p3 = prefix_written_trans [OF p2 write_line_prefix [OF w3]]
  show ?thesis
    using n r w1 w2 w3 p1 p2 p3
    by (simp add: convert_slicer_metadata_def)
qed

lemma thumbnails_loop_prefix:
  assumes "thumbnails_loop B fh vc r0 hdr0 src0 dst0 = Some y"
  shows "case y of Inl out \<Rightarrow> output_extends dst0 out
         | Inr (r, hdr, src, dst) \<Rightarrow> prefix (written dst0) (written dst)"
  using assms
proof (induction B fh vc r0 hdr0 src0 dst0 y
    rule: thumbnails_loop.raw_induct [rotated 1, consumes 1])
  case (1 loop B fh vc r0 hdr0 src0 dst0 y)
  show ?case
  proof (cases "btype hdr0 = Thumbnail")
    case False
    with "1.hyps" show ?thesis by auto
  next
    case True
    obtain res t src1 where rd: "read_thumbnail B src0 fh hdr0 = (res, t, src1)"
      by (cases "read_thumbnail B src0 fh hdr0") auto
    obtain ok dst1 where wt: "write_thumbnail t dst0 = (ok, dst1)"
      by (cases "write_thumbnail t dst0") auto
    obtain res2 hdr2 src2 where nx: "read_next_block_header B src1 fh vc = (res2, hdr2, src2)"
      by (cases "read_next_block_header B src1 fh vc") auto
    note p = write_thumbnail_prefix [OF wt]
    show ?thesis
    proof (cases "res = Success \<and> ok \<and> res2 = Success")
      case False
      with "1.hyps" True rd wt nx p show ?thesis
        by (auto split: if_splits)
    next
      case ok: True
      with "1.hyps" True rd wt nx
      have rec: "loop B fh vc (ftell src1) hdr2 src2 dst1 = Some y" by simp
      from "1.IH" [OF rec] p show ?thesis
        by (cases y) (auto intro: output_extends_trans prefix_written_trans)
    qed
  qed
qed

lemma gcode_loop_prefix:
  assumes "gcode_loop B fh vc fs hdr0 src0 dst0 = Some y"
  shows "case y of Inl out \<Rightarrow> output_extends dst0 out
         | Inr (src, dst) \<Rightarrow> prefix (written dst0) (written dst)"
  using assms
proof (induction B fh vc fs hdr0 src0 dst0 y
    rule: gcode_loop.raw_induct [rotated 1, consumes 1])
  case (1 loop B fh vc fs hdr0 src0 dst0 y)
  show ?case
  proof (cases "btype hdr0 = GCode")
    case False
    with "1.hyps" show ?thesis by auto
  next
    case True
    obtain res raw src1 where rd: "read_gcode B src0 fh hdr0 = (res, raw, src1)"
      by (cases "read_gcode B src0 fh hdr0") auto
    show ?thesis
    proof (cases "res = Success")
      case False
      with "1.hyps" True rd show ?thesis by auto
    next
      case ok: True
      show ?thesis
      proof (cases "remove_empty_lines raw")
        case None
        with "1.hyps" True rd ok show ?thesis by auto
      next
        case (Some out_str)
        obtain okw dst1 where
          wt: "(if out_str \<noteq> [] then write_line out_str dst0 else (True, dst0)) = (okw, dst1)"
          by (cases "if out_str \<noteq> [] then write_line out_str dst0 else (True, dst0)") auto
        then have p: "prefix (written dst0) (written dst1)"
          by (auto split: if_splits dest: write_line_prefix)
        obtain res2 hdr2 src2 where
          nx: "read_next_block_header B src1 fh vc = (res2, hdr2, src2)"
          by (cases "read_next_block_header B src1 fh vc") auto
        show ?thesis
        proof (cases "okw \<and> ftell src1 \<noteq> fs \<and> res2 = Success")
          case False
          with "1.hyps" True rd ok Some wt nx p show ?thesis
            by (auto split: if_splits)
        next
          case go: True
          with "1.hyps" True rd ok Some wt nx
          have rec: "loop B fh vc fs hdr2 src2 dst1 = Some y" by simp
          from "1.IH" [OF rec] p show ?thesis
            by (cases y) (auto intro: output_extends_trans prefix_written_trans)
        qed
      qed
    qed
  qed
qed

lemma finish_metadata_prefix: "output_extends d (finish_metadata B fh vc r s d)"
proof (cases "convert_print_metadata B fh vc r s d")
  case (Inl out)
  with convert_print_metadata_prefix [where B = B and fh = fh and vc = vc and r = r and s = s
      and d = d] show ?thesis
    by (simp add: finish_metadata_def)
next
  case (Inr x)
  obtain s' d' where x: "x = (s', d')" by (cases x) auto
  with Inr convert_print_metadata_prefix [where B = B and fh = fh and vc = vc and r = r and s = s
      and d = d]
  have p: "prefix (written d) (written d')" by simp
  from output_extends_trans [OF p convert_slicer_metadata_prefix] Inr x show ?thesis
    by (simp add: finish_metadata_def)
qed

lemma convert_gcode_prefix:
  assumes "convert_gcode B fh vc fs hdr s d = Some y"
  shows "case y of Inl out \<Rightarrow> output_extends d out
         | Inr (s', d') \<Rightarrow> prefix (written d) (written d')"
proof -
  obtain ok d1 where w: "write_line [CHR 0x0A] d = (ok, d1)"
    by (cases "write_line [CHR 0x0A] d") auto
  note p = write_line_prefix [OF w]
  obtain res s1 where sk: "skip_block_content B s fh hdr = (res, s1)"
    by (cases "skip_block_content B s fh hdr") auto
  obtain res2 hdr2 s2 where n: "read_next_block_header_of B s1 fh GCode vc = (res2, hdr2, s2)"
    by (cases "read_next_block_header_of B s1 fh GCode vc") auto
  show ?thesis
  proof (cases "ok \<and> res = Success \<and> res2 = Success")
    case False
    with assms w sk n p show ?thesis
      by (auto simp: convert_gcode_def split: if_splits)
  next
    case True
    with assms w sk n have "gcode_loop B fh vc fs hdr2 s2 d1 = Some y"
      by (simp add: convert_gcode_def)
    from gcode_loop_prefix [OF this] p show ?thesis
      by (cases y) (auto intro: output_extends_trans prefix_written_trans)
  qed
qed

lemma from_gcode_prefix:
  assumes "from_gcode B fh vc fs r hdr s d = Some out"
  shows "output_extends d out"
proof (cases "convert_gcode B fh vc fs hdr s d")
  case None
  with assms show ?thesis by (simp add: from_gcode_def)
next
  case (Some y)
  show ?thesis
  proof (cases y)
    case (Inl o1)
    with Some assms convert_gcode_prefix [OF Some] show ?thesis
      by (simp add: from_gcode_def)
  next
    case (Inr x)
    obtain s' d' where x: "x = (s', d')" by (cases x) auto
    with Some Inr convert_gcode_prefix [OF Some]
    have p: "prefix (written d) (written d')" by simp
    from Some Inr x assms have "out = finish_metadata B fh vc r s' d'"
      by (simp add: from_gcode_def)
    with output_extends_trans [OF p finish_metadata_prefix] show ?thesis by simp
  qed
qed

lemma from_thumbnails_prefix:
  assumes "from_thumbnails B fh vc fs s d = Some out"
  shows "output_extends d out"
proof (cases "convert_thumbnails B fh vc s d")
  case None
  with assms show ?thesis by (simp add: from_thumbnails_def)
next
  case (Some y)
  obtain res hdr s1 where n: "read_next_block_header B s fh vc = (res, hdr, s1)"
    by (cases "read_next_block_header B s fh vc") auto
  have py: "case y of Inl out \<Rightarrow> output_extends d out
         | Inr (r, hdr, src, dst) \<Rightarrow> prefix (written d) (written dst)"
  proof (cases "res = Success")
    case False
    with Some n show ?thesis
      by (auto simp: convert_thumbnails_def Let_def)
  next
    case True
    with Some n have "thumbnails_loop B fh vc (ftell s) hdr s1 d = Some y"
      by (simp add: convert_thumbnails_def Let_def)
    then show ?thesis by (rule thumbnails_loop_prefix)
  qed
  show ?thesis
  proof (cases y)
    case (Inl o1)
    with Some assms py show ?thesis by (simp add: from_thumbnails_def)
  next
    case (Inr x)
    obtain r h s' d' where x: "x = (r, h, s', d')" by (cases x) auto
    with Inr py have p: "prefix (written d) (written d')" by simp
    from Some Inr x assms have "from_gcode B fh vc fs r h s' d' = Some out"
      by (simp add: from_thumbnails_def)
    from output_extends_trans [OF p from_gcode_prefix [OF this]] show ?thesis .
  qed
qed

lemma from_printer_metadata_prefix:
  assumes "from_printer_metadata B fh vc fs s d = Some out"
  shows "output_extends d out"
proof (cases "convert_printer_metadata B fh vc s d")
  case (Inl o1)
  with assms convert_printer_metadata_prefix [where B = B and fh = fh and vc = vc and s = s
      and d = d] show ?thesis
    by (simp add: from_printer_metadata_def)
next
  case (Inr x)
  obtain s' d' where x: "x = (s', d')" by (cases x) auto
  with Inr convert_printer_metadata_prefix [where B = B and fh = fh and vc = vc and s = s
      and d = d]
  have p: "prefix (written d) (written d')" by simp
  from Inr x assms have "from_thumbnails B fh vc fs s' d' = Some out"
    by (simp add: from_printer_metadata_def)
  from output_extends_trans [OF p from_thumbnails_prefix [OF this]] show ?thesis .
qed

text \<open>
  Claim C8. When the decoded file metadata has no pair with the key \<open>"Producer"\<close>,
  the first write of \<open>from_binary_to_ascii\<close> is the line
  \<open>"; generated by Unknown"\<close> with its three newlines: the call is the rest of the
  function run on the output file that holds this write, and whatever the call leaves
  as output begins with it.
\<close>

theorem unknown_producer_line:
  "is_valid_binary_gcode B src True = (Success, s)
   \<and> read_header B (rewind (fseek_end s)) = (Success, fh, s0)
   \<and> read_next_block_header B s0 fh vc = (Success, hdr, s1) \<and> btype hdr = FileMetadata
   \<and> read_file_metadata B s1 fh hdr = (Success, raw, s2)
   \<and> (\<forall>item\<in>set raw. fst item \<noteq> ''Producer'') \<longrightarrow>
   from_binary_to_ascii B src dst vc
     = (if ferror (fwrite (''; generated by Unknown'' @ [CHR 0x0A, CHR 0x0A, CHR 0x0A]) dst)
        then Some (Return WriteError s2
               (fwrite (''; generated by Unknown'' @ [CHR 0x0A, CHR 0x0A, CHR 0x0A]) dst))
        else from_printer_metadata B fh vc (file_length s) s2
               (fwrite (''; generated by Unknown'' @ [CHR 0x0A, CHR 0x0A, CHR 0x0A]) dst))
   \<and> (length (''; generated by Unknown'' @ [CHR 0x0A, CHR 0x0A, CHR 0x0A]) \<le> room dst \<longrightarrow>
        written (fwrite (''; generated by Unknown'' @ [CHR 0x0A, CHR 0x0A, CHR 0x0A]) dst)
          = written dst @ [''; generated by Unknown'' @ [CHR 0x0A, CHR 0x0A, CHR 0x0A]])
   \<and> (\<forall>out. from_binary_to_ascii B src dst vc = Some out \<longrightarrow>
        output_extends
          (fwrite (''; generated by Unknown'' @ [CHR 0x0A, CHR 0x0A, CHR 0x0A]) dst) out)"
proof (intro impI, elim conjE)
  let ?L = "''; generated by Unknown'' @ [CHR 0x0A, CHR 0x0A, CHR 0x0A]"
  assume v: "is_valid_binary_gcode B src True = (Success, s)"
    and h: "read_header B (rewind (fseek_end s)) = (Success, fh, s0)"
    and n: "read_next_block_header B s0 fh vc = (Success, hdr, s1)"
    and ty: "btype hdr = FileMetadata"
    and rd: "read_file_metadata B s1 fh hdr = (Success, raw, s2)"
    and np: "\<forall>item\<in>set raw. fst item \<noteq> ''Producer''"
  from np have "find (\<lambda>item. fst item = ''Producer'') raw = None"
    by (auto simp: find_None_iff)
  then have unknown: "producer_str raw = ''Unknown''"
    by (simp add: producer_str_def)
  have run: "from_binary_to_ascii B src dst vc
     = (if ferror (fwrite ?L dst) then Some (Return WriteError s2 (fwrite ?L dst))
        else from_printer_metadata B fh vc (file_length s) s2 (fwrite ?L dst))"
    using n ty rd unknown
    by (simp add: from_binary_to_ascii_blocks [OF v h] convert_blocks_def
        convert_file_metadata_def write_line_def Let_def)
  have first: "written (fwrite ?L dst) = written dst @ [?L]" if "length ?L \<le> room dst"
    using that by (simp add: fwrite_def)
  have later: "output_extends (fwrite ?L dst) out"
    if "from_binary_to_ascii B src dst vc = Some out" for out
  proof (cases "ferror (fwrite ?L dst)")
    case True
    with that run show ?thesis by auto
  next
    case False
    with that run have "from_printer_metadata B fh vc (file_length s) s2 (fwrite ?L dst) = Some out"
      by simp
    then show ?thesis by (rule from_printer_metadata_prefix)
  qed
  show "from_binary_to_ascii B src dst vc
     = (if ferror (fwrite ?L dst) then Some (Return WriteError s2 (fwrite ?L dst))
        else from_printer_metadata B fh vc (file_length s) s2 (fwrite ?L dst))
   \<and> (length ?L \<le> room dst \<longrightarrow> written (fwrite ?L dst) = written dst @ [?L])
   \<and> (\<forall>out. from_binary_to_ascii B src dst vc = Some out \<longrightarrow>
        output_extends (fwrite ?L dst) out)"
    using run first later by blast
qed

theorem unknown_producer_line_witness:
  "from_binary_to_ascii seek_layer (container_file no_producer) (empty_file 1000) True
     = from_printer_metadata seek_layer header1 True 11 (at_offset no_producer 3)
         (fwrite (''; generated by Unknown'' @ [CHR 0x0A, CHR 0x0A, CHR 0x0A]) (empty_file 1000))
   \<and> written (fwrite (''; generated by Unknown'' @ [CHR 0x0A, CHR 0x0A, CHR 0x0A])
         (empty_file 1000))
       = [''; generated by Unknown'' @ [CHR 0x0A, CHR 0x0A, CHR 0x0A]]
   \<and> from_binary_to_ascii seek_layer (container_file no_producer) (empty_file 1000) True
     = Some (Return Success (at_offset no_producer 9)
         (append_writes example_writes (empty_file 1000)))
   \<and> output_extends
         (fwrite (''; generated by Unknown'' @ [CHR 0x0A, CHR 0x0A, CHR 0x0A]) (empty_file 1000))
         (Return Success (at_offset no_producer 9)
            (append_writes example_writes (empty_file 1000)))"
proof -
  let ?c = no_producer
  let ?L = "''; generated by Unknown'' @ [CHR 0x0A, CHR 0x0A, CHR 0x0A]"
  let ?d0 = "empty_file 1000"
  have v: "is_valid_binary_gcode seek_layer (container_file ?c) True
             = (Success, container_file ?c)" by code_simp
  have h: "read_header seek_layer (rewind (fseek_end (container_file ?c)))
             = (Success, header1, at_offset ?c 1)" by code_simp
  have n: "read_next_block_header seek_layer (at_offset ?c 1) header1 True
             = (Success, header_of FileMetadata, at_offset ?c 2)" by code_simp
  have ty: "btype (header_of FileMetadata) = FileMetadata" by code_simp
  have rd: "read_file_metadata seek_layer (at_offset ?c 2) header1 (header_of FileMetadata)
             = (Success, [(''Produced on'', ''2023-07-12'')], at_offset ?c 3)" by code_simp
  have np: "\<forall>item\<in>set [(''Produced on'', ''2023-07-12'')]. fst item \<noteq> ''Producer''"
    by simp
  have len: "file_length (container_file ?c) = 11" by code_simp
  have ok: "\<not> ferror (fwrite ?L ?d0)" by code_simp
  have fit: "length ?L \<le> room ?d0" by code_simp
  have w0: "written ?d0 = []" by code_simp
  have run: "from_binary_to_ascii seek_layer (container_file ?c) ?d0 True
     = Some (Return Success (at_offset ?c 9) (append_writes example_writes ?d0))"
    by code_simp
  note inst = unknown_producer_line [where B = seek_layer and src = "container_file ?c"
      and s = "container_file ?c" and fh = header1 and ?s0.0 = "at_offset ?c 1" and vc = True
      and hdr = "header_of FileMetadata" and ?s1.0 = "at_offset ?c 2"
      and raw = "[(''Produced on'', ''2023-07-12'')]" and ?s2.0 = "at_offset ?c 3"
      and dst = ?d0]
  from inst v h n ty rd np ok len
  have a: "from_binary_to_ascii seek_layer (container_file ?c) ?d0 True
     = from_printer_metadata seek_layer header1 True 11 (at_offset ?c 3) (fwrite ?L ?d0)"
    by simp
  from inst v h n ty rd np fit w0
  have b: "written (fwrite ?L ?d0) = [?L]"
    by simp
  from inst v h n ty rd np run
  have c: "output_extends (fwrite ?L ?d0)
     (Return Success (at_offset ?c 9) (append_writes example_writes ?d0))"
    by blast
  from a b run c show ?thesis by (intro conjI)
qed


section \<open>The example of the spec\<close>

lemma file_text_append_writes [simp]:
  "file_text (append_writes L d) = file_text d @ concat L"
  by (simp add: file_text_def)

lemma file_metadata_ok:
  assumes "read_next_block_header B s fh vc = (Success, h, s1)" "btype h = FileMetadata"
    and "read_file_metadata B s1 fh h = (Success, raw, s2)"
    and "\<not> failed d"
    and "length (''; generated by '' @ producer_str raw @ [CHR 0x0A, CHR 0x0A, CHR 0x0A]) \<le> room d"
  shows "convert_file_metadata B fh vc s d
         = Inr (s2, append_writes
             [''; generated by '' @ producer_str raw @ [CHR 0x0A, CHR 0x0A, CHR 0x0A]] d)"
  using assms(1,2,3) write_line_append [OF assms(4,5)]
  by (simp add: convert_file_metadata_def)

lemma printer_metadata_ok:
  assumes "read_next_block_header B s fh vc = (Success, h, s1)" "btype h = PrinterMetadata"
    and "read_printer_metadata B s1 fh h = (Success, raw, s2)"
    and "\<not> failed d" "length (concat (map metadata_line raw)) \<le> room d"
  shows "convert_printer_metadata B fh vc s d
         = Inr (s2, append_writes (map metadata_line raw) d)"
  using assms(1,2,3) write_metadata_append [OF assms(4,5)]
  by (simp add: convert_printer_metadata_def)

lemma gcode_single_ok:
  assumes nf: "\<not> failed d"
    and sk: "skip_block_content B s fh h = (Success, s1)"
    and nx: "read_next_block_header_of B s1 fh GCode vc = (Success, h', s2)"
    and ty: "btype h' = GCode"
    and rd: "read_gcode B s2 fh h' = (Success, raw, s3)"
    and out: "remove_empty_lines raw = Some out" "out \<noteq> []"
    and end_of_file: "ftell s3 = fs"
    and fit: "length ([CHR 0x0A] @ out) \<le> room d"
  shows "convert_gcode B fh vc fs h s d = Some (Inr (s3, append_writes [[CHR 0x0A], out] d))"
proof -
  from fit have fit1: "length [CHR 0x0A] \<le> room d" by simp
  have w1: "write_line [CHR 0x0A] d = (True, append_writes [[CHR 0x0A]] d)"
    by (rule write_line_append [OF nf fit1])
  have "write_line out (append_writes [[CHR 0x0A]] d)
        = (True, append_writes [out] (append_writes [[CHR 0x0A]] d))"
    using nf fit by (intro write_line_append) simp_all
  then have w2: "(if out \<noteq> [] then write_line out (append_writes [[CHR 0x0A]] d)
                  else (True, append_writes [[CHR 0x0A]] d))
                 = (True, append_writes [[CHR 0x0A], out] d)"
    using out(2) by (simp add: append_writes_append)
  have "gcode_loop B fh vc fs h' s2 (append_writes [[CHR 0x0A]] d)
        = Some (Inr (s3, append_writes [[CHR 0x0A], out] d))"
    using gcode_loop_step [OF ty rd out(1) w2, of vc fs] end_of_file by simp
  then show ?thesis
    by (simp add: convert_gcode_def w1 sk nx)
qed

lemma print_metadata_ok:
  assumes "read_next_block_header B (fseek_set s r) fh vc = (Success, h, s1)"
    "btype h = PrintMetadata"
    and "read_print_metadata B s1 fh h = (Success, raw, s2)"
    and nf: "\<not> failed d"
    and fit: "length (concat ([CHR 0x0A] # map metadata_line raw)) \<le> room d"
  shows "convert_print_metadata B fh vc r s d
         = Inr (s2, append_writes ([CHR 0x0A] # map metadata_line raw) d)"
proof -
  from fit have fit1: "length [CHR 0x0A] \<le> room d" by simp
  have w1: "write_line [CHR 0x0A] d = (True, append_writes [[CHR 0x0A]] d)"
    by (rule write_line_append [OF nf fit1])
  have w2: "write_metadata raw (append_writes [[CHR 0x0A]] d)
            = (True, append_writes (map metadata_line raw) (append_writes [[CHR 0x0A]] d))"
    using nf fit by (intro write_metadata_append) simp_all
  show ?thesis
    using assms(1,2,3)
    by (simp add: convert_print_metadata_def w1 w2 append_writes_append)
qed

lemma slicer_metadata_ok:
  assumes "read_next_block_header B s fh vc = (Success, h, s1)" "btype h = SlicerMetadata"
    and "read_slicer_metadata B s1 fh h = (Success, raw, s2)"
    and nf: "\<not> failed d"
    and fit: "length (concat (([CHR 0x0A] @ ''; prusaslicer_config = begin'' @ [CHR 0x0A])
                # map metadata_line raw
                @ [''; prusaslicer_config = end'' @ [CHR 0x0A, CHR 0x0A]])) \<le> room d"
  shows "convert_slicer_metadata B fh vc s d
         = Return Success s2
             (append_writes (([CHR 0x0A] @ ''; prusaslicer_config = begin'' @ [CHR 0x0A])
                # map metadata_line raw
                @ [''; prusaslicer_config = end'' @ [CHR 0x0A, CHR 0x0A]]) d)"
proof -
  let ?b = "[CHR 0x0A] @ ''; prusaslicer_config = begin'' @ [CHR 0x0A]"
  let ?e = "''; prusaslicer_config = end'' @ [CHR 0x0A, CHR 0x0A]"
  from fit have fit1: "length ?b \<le> room d" by simp
  have w1: "write_line ?b d = (True, append_writes [?b] d)"
    by (rule write_line_append [OF nf fit1])
  have "write_metadata raw (append_writes [?b] d)
            = (True, append_writes (map metadata_line raw) (append_writes [?b] d))"
    using nf fit by (intro write_metadata_append) simp_all
  then have w2: "write_metadata raw (append_writes [?b] d)
            = (True, append_writes (?b # map metadata_line raw) d)"
    by (simp add: append_writes_append)
  have "write_line ?e (append_writes (?b # map metadata_line raw) d)
            = (True, append_writes [?e] (append_writes (?b # map metadata_line raw) d))"
    using nf fit by (intro write_line_append) simp_all
  then have w3: "write_line ?e (append_writes (?b # map metadata_line raw) d)
            = (True, append_writes (?b # map metadata_line raw @ [?e]) d)"
    by (simp add: append_writes_append)
  show ?thesis
    using assms(1,2,3)
    by (simp only: convert_slicer_metadata_def w1 w2 w3 prod.case if_False
        not_True_eq_False not_False_eq_True refl simp_thms)
qed

lemma example_normalised:
  "remove_empty_lines (text_of_lines [''G1 X0'', ''; comment'', '''', ''G1 X1''])
   = Some (text_of_lines [''G1 X0'', ''; comment'', ''G1 X1''])"
  by code_simp

lemma example_text:
  "concat example_writes =
   ''; generated by Unknown\<newline>\<newline>\<newline>; Printer = X1\<newline>\<newline>G1 X0\<newline>; comment\<newline>G1 X1\<newline>\<newline>; Layers = 10\<newline>\<newline>; prusaslicer_config = begin\<newline>; nozzle = 0.4\<newline>; prusaslicer_config = end\<newline>\<newline>''"
  by code_simp

text \<open>
  Claim C1, amended. For any layer that delivers the blocks of the example to the calls
  of \<open>from_binary_to_ascii\<close> (file metadata without a producer, printer metadata
  \<open>("Printer", "X1")\<close>, no thumbnail, after the skip of the block that follows the
  printer metadata one GCode block that ends the file, and after the seek back the print
  metadata \<open>("Layers", "10")\<close> and the slicer metadata \<open>("nozzle", "0.4")\<close>), the
  call succeeds and the output is the text of the example with the line
  \<open>"; comment"\<close> kept and one newline between the GCode text and the print metadata.
\<close>

theorem example_conversion:
  "is_valid_binary_gcode B src True = (Success, s)
   \<and> read_header B (rewind (fseek_end s)) = (Success, fh, s0)
   \<and> read_next_block_header B s0 fh vc = (Success, h1, s1) \<and> btype h1 = FileMetadata
   \<and> read_file_metadata B s1 fh h1 = (Success, raw, s2)
   \<and> (\<forall>item\<in>set raw. fst item \<noteq> ''Producer'')
   \<and> read_next_block_header B s2 fh vc = (Success, h2, s3) \<and> btype h2 = PrinterMetadata
   \<and> read_printer_metadata B s3 fh h2 = (Success, [(''Printer'', ''X1'')], s4)
   \<and> read_next_block_header B s4 fh vc = (Success, h3, s5) \<and> btype h3 \<noteq> Thumbnail
   \<and> skip_block_content B s5 fh h3 = (Success, s6)
   \<and> read_next_block_header_of B s6 fh GCode vc = (Success, h4, s7) \<and> btype h4 = GCode
   \<and> read_gcode B s7 fh h4
       = (Success, text_of_lines [''G1 X0'', ''; comment'', '''', ''G1 X1''], s8)
   \<and> ftell s8 = file_length s
   \<and> read_next_block_header B (fseek_set s8 (ftell s4)) fh vc = (Success, h5, s9)
   \<and> btype h5 = PrintMetadata
   \<and> read_print_metadata B s9 fh h5 = (Success, [(''Layers'', ''10'')], s10)
   \<and> read_next_block_header B s10 fh vc = (Success, h6, s11) \<and> btype h6 = SlicerMetadata
   \<and> read_slicer_metadata B s11 fh h6 = (Success, [(''nozzle'', ''0.4'')], s12)
   \<and> 151 \<le> n \<longrightarrow>
   result_of (from_binary_to_ascii B src (empty_file n) vc)
     = Some (Success,
         ''; generated by Unknown\<newline>\<newline>\<newline>; Printer = X1\<newline>\<newline>G1 X0\<newline>; comment\<newline>G1 X1\<newline>\<newline>; Layers = 10\<newline>\<newline>; prusaslicer_config = begin\<newline>; nozzle = 0.4\<newline>; prusaslicer_config = end\<newline>\<newline>'')"
proof (intro impI, elim conjE)
  let ?w1 = "''; generated by Unknown'' @ [CHR 0x0A, CHR 0x0A, CHR 0x0A]"
  let ?w2 = "metadata_line (''Printer'', ''X1'')"
  let ?w4 = "text_of_lines [''G1 X0'', ''; comment'', ''G1 X1'']"
  let ?w6 = "metadata_line (''Layers'', ''10'')"
  let ?w7 = "[CHR 0x0A] @ ''; prusaslicer_config = begin'' @ [CHR 0x0A]"
  let ?w8 = "metadata_line (''nozzle'', ''0.4'')"
  let ?w9 = "''; prusaslicer_config = end'' @ [CHR 0x0A, CHR 0x0A]"
  let ?d0 = "empty_file n"
  let ?d1 = "append_writes [?w1] ?d0"
  let ?d2 = "append_writes [?w1, ?w2] ?d0"
  let ?d4 = "append_writes [?w1, ?w2, [CHR 0x0A], ?w4] ?d0"
  let ?d6 = "append_writes [?w1, ?w2, [CHR 0x0A], ?w4, [CHR 0x0A], ?w6] ?d0"
  assume v: "is_valid_binary_gcode B src True = (Success, s)"
    and h: "read_header B (rewind (fseek_end s)) = (Success, fh, s0)"
    and n1: "read_next_block_header B s0 fh vc = (Success, h1, s1)"
    and t1: "btype h1 = FileMetadata"
    and r1: "read_file_metadata B s1 fh h1 = (Success, raw, s2)"
    and np: "\<forall>item\<in>set raw. fst item \<noteq> ''Producer''"
    and n2: "read_next_block_header B s2 fh vc = (Success, h2, s3)"
    and t2: "btype h2 = PrinterMetadata"
    and r2: "read_printer_metadata B s3 fh h2 = (Success, [(''Printer'', ''X1'')], s4)"
    and n3: "read_next_block_header B s4 fh vc = (Success, h3, s5)"
    and t3: "btype h3 \<noteq> Thumbnail"
    and sk: "skip_block_content B s5 fh h3 = (Success, s6)"
    and n4: "read_next_block_header_of B s6 fh GCode vc = (Success, h4, s7)"
    and t4: "btype h4 = GCode"
    and r4: "read_gcode B s7 fh h4
       = (Success, text_of_lines [''G1 X0'', ''; comment'', '''', ''G1 X1''], s8)"
    and eof: "ftell s8 = file_length s"
    and n5: "read_next_block_header B (fseek_set s8 (ftell s4)) fh vc = (Success, h5, s9)"
    and t5: "btype h5 = PrintMetadata"
    and r5: "read_print_metadata B s9 fh h5 = (Success, [(''Layers'', ''10'')], s10)"
    and n6: "read_next_block_header B s10 fh vc = (Success, h6, s11)"
    and t6: "btype h6 = SlicerMetadata"
    and r6: "read_slicer_metadata B s11 fh h6 = (Success, [(''nozzle'', ''0.4'')], s12)"
    and room: "151 \<le> n"
  from np have "find (\<lambda>item. fst item = ''Producer'') raw = None"
    by (auto simp: find_None_iff)
  then have unknown: "producer_str raw = ''Unknown''"
    by (simp add: producer_str_def)
  have nf: "\<not> failed (append_writes L ?d0)" for L
    by (simp add: empty_file_def)
  have rm: "room (append_writes L ?d0) = n - length (concat L)" for L
    by (simp add: empty_file_def)
  have nf0: "\<not> failed ?d0" and rm0: "room ?d0 = n"
    by (simp_all add: empty_file_def)
  have lens: "length ?w2 = 15" "length ?w4 = 22" "length ?w6 = 14" "length ?w8 = 15"
    by (simp_all add: metadata_line_def text_of_lines_def)
  have p1: "convert_file_metadata B fh vc s0 ?d0 = Inr (s2, ?d1)"
    using file_metadata_ok [OF n1 t1 r1 nf0] room
    by (simp add: unknown rm0)
  have p2: "convert_printer_metadata B fh vc s2 ?d1 = Inr (s4, ?d2)"
    using printer_metadata_ok [OF n2 t2 r2 nf [of "[?w1]"]] room
    by (simp add: rm rm0 lens append_writes_append)
  have p3: "convert_thumbnails B fh vc s4 ?d2 = Some (Inr (ftell s4, h3, s5, ?d2))"
  proof -
    have "read_thumbnails B fh vc [] (ftell s4) h3 s5 = Some (ftell s4, h3, s5)"
      using t3 by simp
    from convert_thumbnails_run [OF n3 this nf [of "[?w1, ?w2]"]] show ?thesis
      by simp
  qed
  have p4: "convert_gcode B fh vc (file_length s) h3 s5 ?d2 = Some (Inr (s8, ?d4))"
    using gcode_single_ok [OF nf [of "[?w1, ?w2]"] sk n4 t4 r4 example_normalised _ eof] room
    by (simp add: rm rm0 lens append_writes_append text_of_lines_def)
  have p5: "convert_print_metadata B fh vc (ftell s4) s8 ?d4 = Inr (s10, ?d6)"
    using print_metadata_ok [OF n5 t5 r5 nf [of "[?w1, ?w2, [CHR 0x0A], ?w4]"]] room
    by (simp add: rm rm0 lens append_writes_append)
  have p6: "convert_slicer_metadata B fh vc s10 ?d6
            = Return Success s12 (append_writes example_writes ?d0)"
    using slicer_metadata_ok
        [OF n6 t6 r6 nf [of "[?w1, ?w2, [CHR 0x0A], ?w4, [CHR 0x0A], ?w6]"]] room
    by (simp add: rm rm0 lens append_writes_append example_writes_def)
  have fm: "finish_metadata B fh vc (ftell s4) s8 ?d4
            = Return Success s12 (append_writes example_writes ?d0)"
    using finish_metadata_cont [OF p5] p6 by (simp only:)
  have "from_binary_to_ascii B src ?d0 vc = convert_blocks B fh vc (file_length s) s0 ?d0"
    by (rule from_binary_to_ascii_blocks [OF v h])
  also have "\<dots> = from_printer_metadata B fh vc (file_length s) s2 ?d1"
    by (rule convert_blocks_cont [OF p1])
  also have "\<dots> = from_thumbnails B fh vc (file_length s) s4 ?d2"
    by (rule from_printer_metadata_cont [OF p2])
  also have "\<dots> = from_gcode B fh vc (file_length s) (ftell s4) h3 s5 ?d2"
    by (rule from_thumbnails_cont [OF p3])
  also have "\<dots> = Some (finish_metadata B fh vc (ftell s4) s8 ?d4)"
    by (rule from_gcode_cont [OF p4])
  finally have "from_binary_to_ascii B src ?d0 vc
        = Some (Return Success s12 (append_writes example_writes ?d0))"
    by (simp only: fm)
  then have "result_of (from_binary_to_ascii B src ?d0 vc)
        = Some (Success, file_text ?d0 @ concat example_writes)"
    by simp
  then show "result_of (from_binary_to_ascii B src ?d0 vc)
     = Some (Success,
         ''; generated by Unknown\<newline>\<newline>\<newline>; Printer = X1\<newline>\<newline>G1 X0\<newline>; comment\<newline>G1 X1\<newline>\<newline>; Layers = 10\<newline>\<newline>; prusaslicer_config = begin\<newline>; nozzle = 0.4\<newline>; prusaslicer_config = end\<newline>\<newline>'')"
    by (simp only: example_text) (simp add: file_text_def empty_file_def)
qed

theorem example_conversion_witness:
  "result_of (from_binary_to_ascii seek_layer (container_file no_producer)
      (empty_file 1000) True)
     = Some (Success,
         ''; generated by Unknown\<newline>\<newline>\<newline>; Printer = X1\<newline>\<newline>G1 X0\<newline>; comment\<newline>G1 X1\<newline>\<newline>; Layers = 10\<newline>\<newline>; prusaslicer_config = begin\<newline>; nozzle = 0.4\<newline>; prusaslicer_config = end\<newline>\<newline>'')"
proof -
  let ?c = no_producer
  let ?B = seek_layer
  have v: "is_valid_binary_gcode ?B (container_file ?c) True = (Success, container_file ?c)"
    by code_simp
  have h: "read_header ?B (rewind (fseek_end (container_file ?c)))
             = (Success, header1, at_offset ?c 1)" by code_simp
  have n1: "read_next_block_header ?B (at_offset ?c 1) header1 True
             = (Success, header_of FileMetadata, at_offset ?c 2)" by code_simp
  have t1: "btype (header_of FileMetadata) = FileMetadata" by code_simp
  have r1: "read_file_metadata ?B (at_offset ?c 2) header1 (header_of FileMetadata)
             = (Success, [(''Produced on'', ''2023-07-12'')], at_offset ?c 3)" by code_simp
  have np: "\<forall>item\<in>set [(''Produced on'', ''2023-07-12'')]. fst item \<noteq> ''Producer''"
    by simp
  have n2: "read_next_block_header ?B (at_offset ?c 3) header1 True
             = (Success, header_of PrinterMetadata, at_offset ?c 4)" by code_simp
  have t2: "btype (header_of PrinterMetadata) = PrinterMetadata" by code_simp
  have r2: "read_printer_metadata ?B (at_offset ?c 4) header1 (header_of PrinterMetadata)
             = (Success, [(''Printer'', ''X1'')], at_offset ?c 5)" by code_simp
  have n3: "read_next_block_header ?B (at_offset ?c 5) header1 True
             = (Success, header_of PrintMetadata, at_offset ?c 6)" by code_simp
  have t3: "btype (header_of PrintMetadata) \<noteq> Thumbnail" by code_simp
  have sk: "skip_block_content ?B (at_offset ?c 6) header1 (header_of PrintMetadata)
             = (Success, at_offset ?c 7)" by code_simp
  have n4: "read_next_block_header_of ?B (at_offset ?c 7) header1 GCode True
             = (Success, header_of GCode, at_offset ?c 10)" by code_simp
  have t4: "btype (header_of GCode) = GCode" by code_simp
  have r4: "read_gcode ?B (at_offset ?c 10) header1 (header_of GCode)
             = (Success, text_of_lines [''G1 X0'', ''; comment'', '''', ''G1 X1''],
                at_offset ?c 11)" by code_simp
  have eof: "ftell (at_offset ?c 11) = file_length (container_file ?c)" by code_simp
  have n5: "read_next_block_header ?B
              (fseek_set (at_offset ?c 11) (ftell (at_offset ?c 5))) header1 True
             = (Success, header_of PrintMetadata, at_offset ?c 6)" by code_simp
  have t5: "btype (header_of PrintMetadata) = PrintMetadata" by code_simp
  have r5: "read_print_metadata ?B (at_offset ?c 6) header1 (header_of PrintMetadata)
             = (Success, [(''Layers'', ''10'')], at_offset ?c 7)" by code_simp
  have n6: "read_next_block_header ?B (at_offset ?c 7) header1 True
             = (Success, header_of SlicerMetadata, at_offset ?c 8)" by code_simp
  have t6: "btype (header_of SlicerMetadata) = SlicerMetadata" by code_simp
  have r6: "read_slicer_metadata ?B (at_offset ?c 8) header1 (header_of SlicerMetadata)
             = (Success, [(''nozzle'', ''0.4'')], at_offset ?c 9)" by code_simp
  have room: "(151 :: nat) \<le> 1000" by simp
  from example_conversion [where B = ?B and src = "container_file ?c"
      and s = "container_file ?c" and fh = header1 and vc = True and n = 1000
      and raw = "[(''Produced on'', ''2023-07-12'')]"
      and ?s0.0 = "at_offset ?c 1" and ?h1.0 = "header_of FileMetadata"
      and ?s1.0 = "at_offset ?c 2" and ?s2.0 = "at_offset ?c 3"
      and ?h2.0 = "header_of PrinterMetadata" and ?s3.0 = "at_offset ?c 4"
      and ?s4.0 = "at_offset ?c 5" and ?h3.0 = "header_of PrintMetadata"
      and ?s5.0 = "at_offset ?c 6" and ?s6.0 = "at_offset ?c 7"
      and ?h4.0 = "header_of GCode" and ?s7.0 = "at_offset ?c 10"
      and ?s8.0 = "at_offset ?c 11" and ?h5.0 = "header_of PrintMetadata"
      and ?s9.0 = "at_offset ?c 6" and ?s10.0 = "at_offset ?c 7"
      and ?h6.0 = "header_of SlicerMetadata" and ?s11.0 = "at_offset ?c 8"
      and ?s12.0 = "at_offset ?c 9"]
    v h n1 t1 r1 np n2 t2 r2 n3 t3 sk n4 t4 r4 eof n5 t5 r5 n6 t6 r6 room
  show ?thesis by blast
qed

text \<open>
  Claim C1 as stated fails. With the blocks in the order the spec mandates and the
  layer of the spec, the call skips the only GCode block, finds the print metadata
  header where it asks for a GCode header, and returns \<open>InvalidSequenceOfBlocks\<close>
  after the printer metadata and the gap line. Where the conversion succeeds, its output
  is not the text of the claim: \<open>remove_empty_lines\<close> keeps the line
  \<open>"; comment"\<close>.
\<close>

theorem example_output_counterexample:
  "result_of (from_binary_to_ascii spec_layer (container_file example_blocks)
      (empty_file 1000) True)
     = Some (InvalidSequenceOfBlocks,
         ''; generated by Unknown\<newline>\<newline>\<newline>; Printer = X1\<newline>\<newline>'')
   \<and> result_of (from_binary_to_ascii spec_layer (container_file example_blocks)
      (empty_file 1000) True)
     \<noteq> Some (Success,
         ''; generated by Unknown\<newline>\<newline>\<newline>; Printer = X1\<newline>\<newline>G1 X0\<newline>G1 X1\<newline>\<newline>\<newline>; Layers = 10\<newline>\<newline>; prusaslicer_config = begin\<newline>; nozzle = 0.4\<newline>; prusaslicer_config = end\<newline>\<newline>'')
   \<and> result_of (from_binary_to_ascii seek_layer (container_file stored_example)
      (empty_file 1000) True)
     \<noteq> Some (Success,
         ''; generated by Unknown\<newline>\<newline>\<newline>; Printer = X1\<newline>\<newline>G1 X0\<newline>G1 X1\<newline>\<newline>\<newline>; Layers = 10\<newline>\<newline>; prusaslicer_config = begin\<newline>; nozzle = 0.4\<newline>; prusaslicer_config = end\<newline>\<newline>'')
   \<and> remove_empty_lines (text_of_lines [''G1 X0'', ''; comment'', '''', ''G1 X1''])
     = Some ''G1 X0\<newline>; comment\<newline>G1 X1\<newline>''"
  by code_simp


section \<open>The block that the GCode part skips\<close>

lemma advance_at: "advance (at_offset c q) = at_offset c (q + 1)"
  by (simp add: advance_def at_offset_def container_file_def)

lemma length_replace_payload [simp]: "length (replace_payload c i p) = length c"
  by (simp add: replace_payload_def)

lemma kind_replace_payload:
  "j < length c \<Longrightarrow> kind (replace_payload c i p ! j) = kind (c ! j)"
  by (cases "j = i") (simp_all add: replace_payload_def)

lemma nth_replace_payload: "j \<noteq> i \<Longrightarrow> replace_payload c i p ! j = c ! j"
  by (simp add: replace_payload_def)

lemma forget_replace: "forget (at_offset (replace_payload c i p) q) = forget (at_offset c q)"
  by (simp add: forget_def at_offset_def container_file_def)

lemma read_header_replace:
  "\<exists>r h q1. spec_read_next_block_header (at_offset c q) fh vc = (r, h, at_offset c q1)
     \<and> spec_read_next_block_header (at_offset (replace_payload c i p) q) fh vc
         = (r, h, at_offset (replace_payload c i p) q1)
     \<and> (r = Success \<longrightarrow> q1 = q + 1 \<and> q < 2 * int (length c) + 1)"
proof (cases "1 \<le> q \<and> q mod 2 = 1 \<and> nat ((q - 1) div 2) < length c")
  case True
  then have lt: "q < 2 * int (length c) + 1" by auto
  let ?j = "nat ((q - 1) div 2)"
  from True have a: "header_at (at_offset c q) = Some (c ! ?j)"
    by (simp add: header_at_def at_offset_def container_file_def)
  from True have b: "header_at (at_offset (replace_payload c i p) q)
      = Some (replace_payload c i p ! ?j)"
    by (simp add: header_at_def at_offset_def container_file_def)
  from True have k: "kind (replace_payload c i p ! ?j) = kind (c ! ?j)"
    by (simp add: kind_replace_payload)
  show ?thesis
    using lt by (simp add: spec_read_next_block_header_def a b k advance_at)
next
  case False
  then have a: "header_at (at_offset c q) = None"
    by (auto simp: header_at_def at_offset_def container_file_def)
  from False have b: "header_at (at_offset (replace_payload c i p) q) = None"
    by (auto simp: header_at_def at_offset_def container_file_def)
  show ?thesis
    by (auto simp: spec_read_next_block_header_def a b)
qed

lemma payload_at_replace:
  "q \<noteq> 2 + 2 * int i \<Longrightarrow>
   payload_at (at_offset (replace_payload c i p) q) = payload_at (at_offset c q)"
proof (cases "2 \<le> q \<and> q mod 2 = 0 \<and> nat ((q - 2) div 2) < length c")
  case True
  assume ne: "q \<noteq> 2 + 2 * int i"
  with True have "nat ((q - 2) div 2) \<noteq> i" by auto
  then have "replace_payload c i p ! nat ((q - 2) div 2) = c ! nat ((q - 2) div 2)"
    by (rule nth_replace_payload)
  with True show ?thesis
    by (simp add: payload_at_def at_offset_def container_file_def)
next
  case False
  then show ?thesis
    by (auto simp: payload_at_def at_offset_def container_file_def)
qed

lemma payload_at_replace_None:
  "(payload_at (at_offset (replace_payload c i p) q) = None)
   = (payload_at (at_offset c q) = None)"
  by (auto simp: payload_at_def at_offset_def container_file_def Let_def split: if_splits)

lemma read_gcode_replace:
  assumes "q \<noteq> 2 + 2 * int i"
  shows "\<exists>r raw q1. spec_read_gcode (at_offset c q) fh h = (r, raw, at_offset c q1)
     \<and> spec_read_gcode (at_offset (replace_payload c i p) q) fh h
         = (r, raw, at_offset (replace_payload c i p) q1)
     \<and> (r = Success \<longrightarrow> q1 = q + 1)"
  unfolding spec_read_gcode_def payload_at_replace [OF assms]
  by (auto simp: advance_at split: option.splits payload.splits)

lemma skip_replace:
  "\<exists>r q1. spec_skip_block_content (at_offset c q) fh h = (r, at_offset c q1)
     \<and> spec_skip_block_content (at_offset (replace_payload c i p) q) fh h
         = (r, at_offset (replace_payload c i p) q1)
     \<and> (r = Success \<longrightarrow> q1 = q + 1)"
proof (cases "payload_at (at_offset c q)")
  case None
  with payload_at_replace_None [of c i p q] show ?thesis
    by (auto simp: spec_skip_block_content_def)
next
  case (Some b)
  with payload_at_replace_None [of c i p q]
  obtain b' where "payload_at (at_offset (replace_payload c i p) q) = Some b'"
    by (cases "payload_at (at_offset (replace_payload c i p) q)") auto
  with Some show ?thesis
    by (simp add: spec_skip_block_content_def advance_at)
qed

lemma gcode_loop_replace:
  assumes B: "read_gcode B = spec_read_gcode"
    "read_next_block_header B = spec_read_next_block_header"
    and beyond: "2 + 2 * int i < q"
  shows "seen (gcode_loop B fh vc fs h (at_offset (replace_payload c i p) q) d)
         = seen (gcode_loop B fh vc fs h (at_offset c q) d)"
  using beyond
proof (induction "nat (2 * int (length c) + 2 - q)" arbitrary: q h d rule: less_induct)
  case less
  let ?c' = "replace_payload c i p"
  show ?case
  proof (cases "btype h = GCode")
    case False
    then show ?thesis
      by (subst (1 2) gcode_loop.simps) (simp add: forget_replace)
  next
    case True
    from less.prems have ne: "q \<noteq> 2 + 2 * int i" by simp
    from read_gcode_replace [OF ne, of c fh h p]
    obtain r raw q1 where
      rd: "spec_read_gcode (at_offset c q) fh h = (r, raw, at_offset c q1)"
      and rd': "spec_read_gcode (at_offset ?c' q) fh h = (r, raw, at_offset ?c' q1)"
      and q1: "r = Success \<longrightarrow> q1 = q + 1"
      by blast
    show ?thesis
    proof (cases "r = Success")
      case False
      then show ?thesis
        by (subst (1 2) gcode_loop.simps) (simp add: True B rd rd' forget_replace)
    next
      case ok: True
      with q1 have q1': "q1 = q + 1" by simp
      show ?thesis
      proof (cases "remove_empty_lines raw")
        case None
        then show ?thesis
          by (subst (1 2) gcode_loop.simps) (simp add: True B rd rd' ok)
      next
        case (Some out_str)
        obtain okw d1 where
          w: "(if out_str \<noteq> [] then write_line out_str d else (True, d)) = (okw, d1)"
          by (cases "if out_str \<noteq> [] then write_line out_str d else (True, d)") auto
        from read_header_replace [of c q1 fh vc i p]
        obtain r2 h2 q2 where
          nx: "spec_read_next_block_header (at_offset c q1) fh vc = (r2, h2, at_offset c q2)"
          and nx': "spec_read_next_block_header (at_offset ?c' q1) fh vc
                     = (r2, h2, at_offset ?c' q2)"
          and q2: "r2 = Success \<longrightarrow> q2 = q1 + 1 \<and> q1 < 2 * int (length c) + 1"
          by blast
        have pos: "ftell (at_offset ?c' q1) = ftell (at_offset c q1)"
          by (simp add: ftell_def at_offset_def)
        show ?thesis
        proof (cases "okw \<and> ftell (at_offset c q1) \<noteq> fs \<and> r2 = Success")
          case False
          then show ?thesis
            by (subst (1 2) gcode_loop.simps)
              (auto simp: True B rd rd' ok Some w nx nx' pos forget_replace)
        next
          case go: True
          with q2 q1' have q2': "q2 = q + 2" and bound: "q + 1 < 2 * int (length c) + 1"
            by simp_all
          have "seen (gcode_loop B fh vc fs h2 (at_offset ?c' q2) d1)
                = seen (gcode_loop B fh vc fs h2 (at_offset c q2) d1)"
            using less.prems bound by (intro less.hyps) (simp_all add: q2')
          then show ?thesis
            using go
            by (subst (1 2) gcode_loop.simps)
              (simp add: True B rd rd' ok Some w nx nx' pos)
        qed
      qed
    qed
  qed
qed

lemma seek_header_replace:
  "\<exists>r h q1. seek_header n (at_offset c q) fh e vc = (r, h, at_offset c q1)
     \<and> seek_header n (at_offset (replace_payload c i p) q) fh e vc
         = (r, h, at_offset (replace_payload c i p) q1)
     \<and> (r = Success \<longrightarrow> q < q1)"
proof (induction n arbitrary: q)
  case 0
  show ?case by auto
next
  case (Suc n)
  let ?c' = "replace_payload c i p"
  from read_header_replace [of c q fh vc i p]
  obtain r h q1 where
    nx: "spec_read_next_block_header (at_offset c q) fh vc = (r, h, at_offset c q1)"
    and nx': "spec_read_next_block_header (at_offset ?c' q) fh vc = (r, h, at_offset ?c' q1)"
    and q1: "r = Success \<longrightarrow> q1 = q + 1 \<and> q < 2 * int (length c) + 1"
    by blast
  from skip_replace [of c q1 fh h i p]
  obtain r2 q2 where
    sk: "spec_skip_block_content (at_offset c q1) fh h = (r2, at_offset c q2)"
    and sk': "spec_skip_block_content (at_offset ?c' q1) fh h = (r2, at_offset ?c' q2)"
    and q2: "r2 = Success \<longrightarrow> q2 = q1 + 1"
    by blast
  from Suc.IH [of q2]
  obtain r3 h3 q3 where
    rec: "seek_header n (at_offset c q2) fh e vc = (r3, h3, at_offset c q3)"
    and rec': "seek_header n (at_offset ?c' q2) fh e vc = (r3, h3, at_offset ?c' q3)"
    and q3: "r3 = Success \<longrightarrow> q2 < q3"
    by blast
  show ?case
  proof (cases "r = Success")
    case False
    then show ?thesis by (auto simp: nx nx')
  next
    case ok: True
    with q1 have q1': "q1 = q + 1" by simp
    show ?thesis
    proof (cases "btype h = e")
      case True
      with ok q1' show ?thesis by (auto simp: nx nx')
    next
      case ne: False
      show ?thesis
      proof (cases "r2 = Success")
        case False
        with ok ne show ?thesis by (auto simp: nx nx' sk sk')
      next
        case True
        with q2 q1' have "q < q2" by simp
        with q3 have "r3 = Success \<longrightarrow> q < q3" by auto
        with ok ne True show ?thesis by (auto simp: nx nx' sk sk' rec rec')
      qed
    qed
  qed
qed

lemma typed_header_replace_spec:
  "\<exists>r h q1. spec_read_next_block_header_of (at_offset c q) fh e vc = (r, h, at_offset c q1)
     \<and> spec_read_next_block_header_of (at_offset (replace_payload c i p) q) fh e vc
         = (r, h, at_offset (replace_payload c i p) q1)
     \<and> (r = Success \<longrightarrow> q < q1)"
proof -
  from read_header_replace [of c q fh vc i p]
  obtain r h q1 where
    nx: "spec_read_next_block_header (at_offset c q) fh vc = (r, h, at_offset c q1)"
    and nx': "spec_read_next_block_header (at_offset (replace_payload c i p) q) fh vc
               = (r, h, at_offset (replace_payload c i p) q1)"
    and q1: "r = Success \<longrightarrow> q1 = q + 1 \<and> q < 2 * int (length c) + 1"
    by blast
  then show ?thesis
    by (auto simp: spec_read_next_block_header_of_def)
qed

lemma convert_gcode_replace:
  assumes B: "read_gcode B = spec_read_gcode"
    "read_next_block_header B = spec_read_next_block_header"
    "skip_block_content B = spec_skip_block_content"
    and typed: "\<And>q. \<exists>r h q1.
       read_next_block_header_of B (at_offset c q) fh GCode vc = (r, h, at_offset c q1)
       \<and> read_next_block_header_of B (at_offset (replace_payload c i p) q) fh GCode vc
           = (r, h, at_offset (replace_payload c i p) q1)
       \<and> (r = Success \<longrightarrow> q < q1)"
  shows "seen (convert_gcode B fh vc fs hdr (at_offset (replace_payload c i p) (2 + 2 * int i)) d)
         = seen (convert_gcode B fh vc fs hdr (at_offset c (2 + 2 * int i)) d)"
proof -
  let ?c' = "replace_payload c i p"
  let ?q0 = "2 + 2 * int i"
  obtain ok d1 where w: "write_line [CHR 0x0A] d = (ok, d1)"
    by (cases "write_line [CHR 0x0A] d") auto
  from skip_replace [of c ?q0 fh hdr i p]
  obtain r q1 where
    sk: "spec_skip_block_content (at_offset c ?q0) fh hdr = (r, at_offset c q1)"
    and sk': "spec_skip_block_content (at_offset ?c' ?q0) fh hdr = (r, at_offset ?c' q1)"
    and q1: "r = Success \<longrightarrow> q1 = ?q0 + 1"
    by blast
  from typed [of q1]
  obtain r2 h2 q2 where
    nx: "read_next_block_header_of B (at_offset c q1) fh GCode vc = (r2, h2, at_offset c q2)"
    and nx': "read_next_block_header_of B (at_offset ?c' q1) fh GCode vc
               = (r2, h2, at_offset ?c' q2)"
    and q2: "r2 = Success \<longrightarrow> q1 < q2"
    by blast
  show ?thesis
  proof (cases "ok \<and> r = Success \<and> r2 = Success")
    case False
    then show ?thesis
      by (auto simp: convert_gcode_def w B sk sk' nx nx' forget_replace)
  next
    case True
    with q1 q2 have "?q0 < q2" by simp
    from gcode_loop_replace [OF B(1,2) this, of fh vc fs h2 c p d1] True
    show ?thesis
      by (simp add: convert_gcode_def w B sk sk' nx nx')
  qed
qed

lemma print_metadata_after_seek:
  assumes "i < length c" "kind (c ! i) = PrintMetadata" "payload (c ! i) = Pairs raw"
    and "\<not> failed d" "length (concat ([CHR 0x0A] # map metadata_line raw)) \<le> room d"
  shows "convert_print_metadata spec_layer fh vc (1 + 2 * int i) (at_offset c q) d
         = Inr (at_offset c (3 + 2 * int i),
                append_writes ([CHR 0x0A] # map metadata_line raw) d)"
proof -
  have sk: "fseek_set (at_offset c q) (1 + 2 * int i) = at_offset c (1 + 2 * int i)"
    by (simp add: fseek_set_def at_offset_def)
  have h: "header_at (at_offset c (1 + 2 * int i)) = Some (c ! i)"
    using assms(1) by (simp add: header_at_def at_offset_def container_file_def)
  have n: "read_next_block_header spec_layer (fseek_set (at_offset c q) (1 + 2 * int i)) fh vc
           = (Success, header_of PrintMetadata, at_offset c (2 + 2 * int i))"
    by (simp add: sk spec_layer_def spec_read_next_block_header_def h assms(2) advance_at)
  have ty: "btype (header_of PrintMetadata) = PrintMetadata"
    by (simp add: header_of_def)
  have pl: "payload_at (at_offset c (2 + 2 * int i)) = Some (c ! i)"
    using assms(1) by (simp add: payload_at_def at_offset_def container_file_def)
  have rd: "read_print_metadata spec_layer (at_offset c (2 + 2 * int i)) fh
              (header_of PrintMetadata) = (Success, raw, at_offset c (3 + 2 * int i))"
    by (simp add: spec_layer_def spec_read_pairs_def pl assms(2,3) ty advance_at)
  show ?thesis
    by (rule print_metadata_ok [OF n ty rd assms(4,5)])
qed

text \<open>
  Claim C10, amended. The GCode part of \<open>from_binary_to_ascii\<close> (the gap line, the
  skip, the read of the GCode header, the GCode loop) does not decode the payload of the
  block whose header ended the thumbnail loop: for two containers that differ in that
  payload only it returns or hands on the same result, the same stream position and the
  same output, under either layer. The payload is decoded afterwards: when that block
  is a print metadata block, the part that follows the seek back reads it and writes its
  pairs.
\<close>

theorem skipped_payload_outside_gcode_part:
  "seen (convert_gcode spec_layer fh vc fs hdr
           (at_offset (replace_payload c i p) (2 + 2 * int i)) d)
     = seen (convert_gcode spec_layer fh vc fs hdr (at_offset c (2 + 2 * int i)) d)
   \<and> seen (convert_gcode seek_layer fh vc fs hdr
           (at_offset (replace_payload c i p) (2 + 2 * int i)) d)
     = seen (convert_gcode seek_layer fh vc fs hdr (at_offset c (2 + 2 * int i)) d)
   \<and> (i < length c \<and> kind (c ! i) = PrintMetadata \<and> payload (c ! i) = Pairs raw
        \<and> \<not> failed d \<and> length (concat ([CHR 0x0A] # map metadata_line raw)) \<le> room d \<longrightarrow>
        convert_print_metadata spec_layer fh vc (1 + 2 * int i) (at_offset c q) d
          = Inr (at_offset c (3 + 2 * int i),
                 append_writes ([CHR 0x0A] # map metadata_line raw) d))"
proof -
  have a: "seen (convert_gcode spec_layer fh vc fs hdr
           (at_offset (replace_payload c i p) (2 + 2 * int i)) d)
     = seen (convert_gcode spec_layer fh vc fs hdr (at_offset c (2 + 2 * int i)) d)"
    by (rule convert_gcode_replace)
      (simp_all add: spec_layer_def typed_header_replace_spec)
  have b: "seen (convert_gcode seek_layer fh vc fs hdr
           (at_offset (replace_payload c i p) (2 + 2 * int i)) d)
     = seen (convert_gcode seek_layer fh vc fs hdr (at_offset c (2 + 2 * int i)) d)"
  proof (rule convert_gcode_replace)
    fix q
    have len: "length (content (at_offset (replace_payload c i p) q)) = length c"
      "length (content (at_offset c q)) = length c"
      by (simp_all add: at_offset_def container_file_def)
    from seek_header_replace [of "length c" c q fh GCode vc i p]
    show "\<exists>r h q1.
       read_next_block_header_of seek_layer (at_offset c q) fh GCode vc
         = (r, h, at_offset c q1)
       \<and> read_next_block_header_of seek_layer (at_offset (replace_payload c i p) q) fh GCode vc
           = (r, h, at_offset (replace_payload c i p) q1)
       \<and> (r = Success \<longrightarrow> q < q1)"
      by (simp add: seek_layer_def len)
  qed (simp_all add: seek_layer_def spec_layer_def)
  from a b print_metadata_after_seek [of i c raw d fh vc q] show ?thesis by blast
qed

theorem skipped_payload_outside_gcode_part_witness:
  "replace_payload layers_10 2 (Pairs [(''Layers'', ''20'')]) = layers_20
   \<and> convert_thumbnails spec_layer header1 True (at_offset layers_10 5) (empty_file 1000)
     = Some (Inr (5, header_of PrintMetadata, at_offset layers_10 6, empty_file 1000))
   \<and> seen (convert_gcode spec_layer header1 True 9 (header_of PrintMetadata)
           (at_offset layers_20 6) (empty_file 1000))
     = seen (convert_gcode spec_layer header1 True 9 (header_of PrintMetadata)
           (at_offset layers_10 6) (empty_file 1000))
   \<and> seen (convert_gcode spec_layer header1 True 9 (header_of PrintMetadata)
           (at_offset layers_10 6) (empty_file 1000))
     = Some (Inr (forget (at_offset layers_10 9),
         append_writes [[CHR 0x0A], text_of_lines [''G1 X0'']] (empty_file 1000)))
   \<and> convert_print_metadata spec_layer header1 True 5 (at_offset layers_10 9) (empty_file 1000)
     = Inr (at_offset layers_10 7,
         append_writes [[CHR 0x0A], metadata_line (''Layers'', ''10'')] (empty_file 1000))"
proof -
  let ?d0 = "empty_file 1000"
  have r: "replace_payload layers_10 2 (Pairs [(''Layers'', ''20'')]) = layers_20"
    by code_simp
  have t: "convert_thumbnails spec_layer header1 True (at_offset layers_10 5) ?d0
     = Some (Inr (5, header_of PrintMetadata, at_offset layers_10 6, ?d0))"
    by code_simp
  have g: "seen (convert_gcode spec_layer header1 True 9 (header_of PrintMetadata)
           (at_offset layers_10 6) ?d0)
     = Some (Inr (forget (at_offset layers_10 9),
         append_writes [[CHR 0x0A], text_of_lines [''G1 X0'']] ?d0))"
    by code_simp
  have i: "(2 :: nat) < length layers_10" by code_simp
  have k: "kind (layers_10 ! 2) = PrintMetadata" by code_simp
  have p: "payload (layers_10 ! 2) = Pairs [(''Layers'', ''10'')]" by code_simp
  have f: "\<not> failed ?d0" by code_simp
  have l: "length (concat ([CHR 0x0A] # map metadata_line [(''Layers'', ''10'')])) \<le> room ?d0"
    by code_simp
  note inst = skipped_payload_outside_gcode_part [where c = layers_10 and i = 2
      and p = "Pairs [(''Layers'', ''20'')]" and fh = header1 and vc = True and fs = 9
      and hdr = "header_of PrintMetadata" and d = ?d0 and raw = "[(''Layers'', ''10'')]"
      and q = 9]
  from inst
  have a: "seen (convert_gcode spec_layer header1 True 9 (header_of PrintMetadata)
           (at_offset layers_20 6) ?d0)
     = seen (convert_gcode spec_layer header1 True 9 (header_of PrintMetadata)
           (at_offset layers_10 6) ?d0)"
    by (simp add: r)
  from inst i k p f l
  have b: "convert_print_metadata spec_layer header1 True 5 (at_offset layers_10 9) ?d0
     = Inr (at_offset layers_10 7,
         append_writes [[CHR 0x0A], metadata_line (''Layers'', ''10'')] ?d0)"
    by simp
  from r t a g b show ?thesis by (intro conjI)
qed

text \<open>
  Claim C10 as stated fails: two containers that differ only in the payload of the block
  whose header ended the thumbnail loop, with the skip and the next header read
  succeeding in both, give different outputs, since that block is the print metadata
  block that the function decodes after the seek back.
\<close>

theorem skipped_payload_counterexample:
  "layers_20 = replace_payload layers_10 2 (Pairs [(''Layers'', ''20'')])
   \<and> convert_thumbnails spec_layer header1 True (at_offset layers_10 5) (empty_file 1000)
     = Some (Inr (5, header_of PrintMetadata, at_offset layers_10 6, empty_file 1000))
   \<and> skip_block_content spec_layer (at_offset layers_10 6) header1 (header_of PrintMetadata)
     = (Success, at_offset layers_10 7)
   \<and> read_next_block_header_of spec_layer (at_offset layers_10 7) header1 GCode True
     = (Success, header_of GCode, at_offset layers_10 8)
   \<and> skip_block_content spec_layer (at_offset layers_20 6) header1 (header_of PrintMetadata)
     = (Success, at_offset layers_20 7)
   \<and> read_next_block_header_of spec_layer (at_offset layers_20 7) header1 GCode True
     = (Success, header_of GCode, at_offset layers_20 8)
   \<and> result_of (from_binary_to_ascii spec_layer (container_file layers_10)
         (empty_file 1000) True)
     = Some (InvalidSequenceOfBlocks,
         ''; generated by Unknown\<newline>\<newline>\<newline>\<newline>G1 X0\<newline>\<newline>; Layers = 10\<newline>'')
   \<and> result_of (from_binary_to_ascii spec_layer (container_file layers_20)
         (empty_file 1000) True)
     = Some (InvalidSequenceOfBlocks,
         ''; generated by Unknown\<newline>\<newline>\<newline>\<newline>G1 X0\<newline>\<newline>; Layers = 20\<newline>'')
   \<and> result_of (from_binary_to_ascii spec_layer (container_file layers_10)
         (empty_file 1000) True)
     \<noteq> result_of (from_binary_to_ascii spec_layer (container_file layers_20)
         (empty_file 1000) True)
   \<and> result_of (from_binary_to_ascii seek_layer (container_file stored_example)
         (empty_file 1000) True)
     \<noteq> result_of (from_binary_to_ascii seek_layer
         (container_file (replace_payload stored_example 2 (Pairs [(''Layers'', ''20'')])))
         (empty_file 1000) True)"
  by code_simp


end
